theory Spec2Isabelle
  imports Complex_Main "HOL-Library.Sublist"
begin

chapter \<open>The Alko catalog server: model\<close>

section \<open>Strings\<close>

text \<open>
  JavaScript strings are modelled as \<^typ>\<open>string\<close>; a character outside ASCII stands as
  the bytes of its UTF-8 encoding. \<^verbatim>\<open>String.prototype.toLowerCase\<close> is not fixed by
  the model: every function that folds case takes the fold as its parameter
  \<open>toLowerCase\<close>, and a theorem that needs a law of the fold states the law as a
  hypothesis. The examples are written in ASCII; for them \<open>asciiLowerCase\<close> sends the
  letters A..Z to a..z and leaves every other character as it is, which is what
  \<^verbatim>\<open>toLowerCase\<close> does on ASCII strings.
\<close>

definition upperAZ :: string where
  "upperAZ = ''ABCDEFGHIJKLMNOPQRSTUVWXYZ''"

definition lowerAZ :: string where
  "lowerAZ = ''abcdefghijklmnopqrstuvwxyz''"

definition asciiLowerChar :: "char \<Rightarrow> char" where
  "asciiLowerChar c = (case map_of (zip upperAZ lowerAZ) c of Some l \<Rightarrow> l | None \<Rightarrow> c)"

definition asciiLowerCase :: "string \<Rightarrow> string" where
  "asciiLowerCase s = map asciiLowerChar s"

text \<open>\<^verbatim>\<open>hay.includes(needle)\<close>: \<open>needle\<close> occurs in \<open>hay\<close> as a contiguous run.\<close>

fun includesStr :: "string \<Rightarrow> string \<Rightarrow> bool" where
  "includesStr [] needle = (needle = [])"
| "includesStr (c # cs) needle = (prefix needle (c # cs) \<or> includesStr cs needle)"

text \<open>The white space of the regular expression \<^verbatim>\<open>\s\<close>, within ASCII.\<close>

definition isSpace :: "char \<Rightarrow> bool" where
  "isSpace c = (c \<in> set [CHR '' '', CHR 0x09, CHR 0x0A, CHR 0x0B, CHR 0x0C, CHR 0x0D])"

text \<open>
  \<^verbatim>\<open>s.split(/\s+/)\<close>: the pieces between maximal runs of white space, the empty
  pieces at both ends included; \<open>cur\<close> is the piece being read.
\<close>

function splitWS :: "string \<Rightarrow> string \<Rightarrow> string list" where
  "splitWS cur [] = [cur]"
| "splitWS cur (c # cs) =
     (if isSpace c then cur # splitWS [] (dropWhile isSpace cs)
      else splitWS (cur @ [c]) cs)"
  by pat_completeness auto
termination
  by (relation "measure (\<lambda>(cur, s). length s)") (auto simp: le_imp_less_Suc length_dropWhile_le)

text \<open>\<^verbatim>\<open>parts.join(sep)\<close>\<close>

fun joinWith :: "string \<Rightarrow> string list \<Rightarrow> string" where
  "joinWith sep [] = []"
| "joinWith sep [x] = x"
| "joinWith sep (x # y # ys) = x @ sep @ joinWith sep (y # ys)"

text \<open>
  \<^verbatim>\<open>fields.filter(Boolean)\<close> on values of type \<^verbatim>\<open>string | null\<close>: \<^verbatim>\<open>null\<close> and the
  empty string are dropped.
\<close>

fun filterBoolean :: "string option list \<Rightarrow> string list" where
  "filterBoolean [] = []"
| "filterBoolean (None # fs) = filterBoolean fs"
| "filterBoolean (Some s # fs) = (if s = [] then filterBoolean fs else s # filterBoolean fs)"

text \<open>\<^verbatim>\<open>xs.slice(start, stop)\<close> for non-negative integer bounds.\<close>

definition slice :: "nat \<Rightarrow> nat \<Rightarrow> 'a list \<Rightarrow> 'a list" where
  "slice start stop xs = take (stop - start) (drop start xs)"

text \<open>
  \<^verbatim>\<open>xs.sort(cmp)\<close>: a stable sort by a comparator that answers a negative number, zero
  or a positive number. Each element is put in front of the first element of the already
  sorted rest that it does not have to follow.
\<close>

fun insertBy :: "('a \<Rightarrow> 'a \<Rightarrow> int) \<Rightarrow> 'a \<Rightarrow> 'a list \<Rightarrow> 'a list" where
  "insertBy cmp x [] = [x]"
| "insertBy cmp x (y # ys) = (if cmp x y \<le> 0 then x # y # ys else y # insertBy cmp x ys)"

definition arraySort :: "('a \<Rightarrow> 'a \<Rightarrow> int) \<Rightarrow> 'a list \<Rightarrow> 'a list" where
  "arraySort cmp xs = foldr (insertBy cmp) xs []"

text \<open>
  \<^verbatim>\<open>a.localeCompare(b, 'fi')\<close> is a parameter \<open>lc\<close> of everything that sorts by name;
  a theorem about the order of names states what it needs of \<open>lc\<close> as a hypothesis. For
  the examples, strings are compared character by character.
\<close>

fun compareChars :: "string \<Rightarrow> string \<Rightarrow> int" where
  "compareChars [] [] = 0"
| "compareChars [] (b # bs) = - 1"
| "compareChars (a # as) [] = 1"
| "compareChars (a # as) (b # bs) =
     (if (of_char a :: nat) < of_char b then - 1
      else if (of_char b :: nat) < of_char a then 1
      else compareChars as bs)"

section \<open>Catalog items\<close>

text \<open>
  \<^verbatim>\<open>Product\<close> (types/product.ts), with the fields that the modelled operations read or
  write. Numbers are real numbers; timestamps are readings of a clock, as natural numbers.
\<close>

record product =
  id :: string
  name :: string
  producer :: string
  price :: real
  type :: string
  subtype :: "string option"
  specialGroup :: "string option"
  beerType :: "string option"
  country :: string
  region :: "string option"
  grapes :: "string option"
  description :: "string option"
  tasteProfile :: "string option"
  usageTips :: "string option"
  servingSuggestion :: "string option"
  foodPairings :: "string list option"
  certificates :: "string list option"
  ingredients :: "string option"
  smokiness :: "nat option"
  smokinessLabel :: "string option"
  alcoholPercentage :: real
  assortment :: string
  isNew :: bool
  updatedAt :: nat
  createdAt :: nat

section \<open>Search (services/firestore.ts)\<close>

text \<open>The loop of \<^verbatim>\<open>calculateRelevanceScore\<close> over the other searchable fields.\<close>

fun scoreOtherFields :: "string \<Rightarrow> string list \<Rightarrow> string list \<Rightarrow> int" where
  "scoreOtherFields queryLower queryWords [] = 20"
| "scoreOtherFields queryLower queryWords (fld # rest) =
     (if includesStr fld queryLower then 40
      else if list_all (includesStr fld) queryWords then 30
      else scoreOtherFields queryLower queryWords rest)"

definition otherFields :: "(string \<Rightarrow> string) \<Rightarrow> product \<Rightarrow> string list" where
  "otherFields toLowerCase p =
     map toLowerCase
       (filterBoolean
          [Some (country p), region p, Some (type p), subtype p, description p, grapes p])"

definition calculateRelevanceScore ::
  "(string \<Rightarrow> string) \<Rightarrow> product \<Rightarrow> string \<Rightarrow> string list \<Rightarrow> int" where
  "calculateRelevanceScore toLowerCase p queryLower queryWords =
     (let nameLower = toLowerCase (name p);
          producerLower = toLowerCase (producer p)
      in if includesStr nameLower queryLower then 100
         else if list_all (includesStr nameLower) queryWords then 80
         else if includesStr producerLower queryLower then 60
         else if list_all (includesStr producerLower) queryWords then 50
         else scoreOtherFields queryLower queryWords (otherFields toLowerCase p))"

text \<open>
  The scoring rules as the specification lists them, for comparison with the code: one
  list of rules in priority order, the first rule that matches decides. Rule five asks for
  the phrase in some other field, rule six for all the words in some other field.
\<close>

definition priorityScore ::
  "(string \<Rightarrow> string) \<Rightarrow> product \<Rightarrow> string \<Rightarrow> string list \<Rightarrow> int" where
  "priorityScore toLowerCase p queryLower queryWords =
     (let nameLower = toLowerCase (name p);
          producerLower = toLowerCase (producer p)
      in if includesStr nameLower queryLower then 100
         else if list_all (includesStr nameLower) queryWords then 80
         else if includesStr producerLower queryLower then 60
         else if list_all (includesStr producerLower) queryWords then 50
         else if list_ex (\<lambda>fld. includesStr fld queryLower) (otherFields toLowerCase p) then 40
         else if list_ex (\<lambda>fld. list_all (includesStr fld) queryWords) (otherFields toLowerCase p)
         then 30
         else 20)"

definition searchableText :: "(string \<Rightarrow> string) \<Rightarrow> product \<Rightarrow> string" where
  "searchableText toLowerCase p =
     toLowerCase
       (joinWith '' ''
          (filterBoolean
             [Some (name p), Some (producer p), Some (country p), region p,
              Some (type p), subtype p, description p, grapes p]))"

definition queryWordsOf :: "string \<Rightarrow> string list" where
  "queryWordsOf queryLower = filter (\<lambda>w. length w > 0) (splitWS [] queryLower)"

definition matchesAllWords :: "(string \<Rightarrow> string) \<Rightarrow> string list \<Rightarrow> product \<Rightarrow> bool" where
  "matchesAllWords toLowerCase queryWords p =
     list_all (includesStr (searchableText toLowerCase p)) queryWords"

text \<open>The comparator of the relevance sort, on pairs of an item and its score.\<close>

definition relevanceCompare ::
  "(string \<Rightarrow> string \<Rightarrow> int) \<Rightarrow> product \<times> int \<Rightarrow> product \<times> int \<Rightarrow> int" where
  "relevanceCompare lc a b =
     (if snd b \<noteq> snd a then snd b - snd a else lc (name (fst a)) (name (fst b)))"

definition scored :: "(string \<Rightarrow> string) \<Rightarrow> string \<Rightarrow> product list \<Rightarrow> (product \<times> int) list" where
  "scored toLowerCase query products =
     (let queryLower = toLowerCase query;
          queryWords = queryWordsOf queryLower;
          matchedProducts = filter (matchesAllWords toLowerCase queryWords) products
      in map (\<lambda>p. (p, calculateRelevanceScore toLowerCase p queryLower queryWords)) matchedProducts)"

definition textSearch ::
  "(string \<Rightarrow> string) \<Rightarrow> (string \<Rightarrow> string \<Rightarrow> int) \<Rightarrow> string \<Rightarrow> product list \<Rightarrow> product list" where
  "textSearch toLowerCase lc query products =
     map fst (arraySort (relevanceCompare lc) (scored toLowerCase query products))"

text \<open>
  \<^verbatim>\<open>ProductSearchFilters\<close>, with the fields that \<^verbatim>\<open>searchProducts\<close> reads. The filters
  that go to the store carry the prefix \<open>where\<close> where the plain name is the name of a
  field of the product.
\<close>

record productSearchFilters =
  query :: "string option"
  whereType :: "string option"
  whereCountry :: "string option"
  whereAssortment :: "string option"
  whereSpecialGroup :: "string option"
  whereBeerType :: "string option"
  whereIsNew :: "bool option"
  minPrice :: "real option"
  maxPrice :: "real option"
  minAlcohol :: "real option"
  maxAlcohol :: "real option"
  minSmokiness :: "nat option"
  maxSmokiness :: "nat option"

datatype sortField = ByPrice | ByName | ByAlcohol | ByPricePerLiter

datatype sortDirection = Asc | Desc

record productSearchOptions =
  sortBy :: "sortField option"
  sortOrder :: "sortDirection option"
  limit :: "nat option"
  offset :: "nat option"

record productSearchResult =
  products :: "product list"
  total :: nat
  resultLimit :: nat
  resultOffset :: nat
  hasMore :: bool

text \<open>\<^verbatim>\<open>if (filters.query)\<close>: the query is present and not the empty string.\<close>

fun hasQuery :: "string option \<Rightarrow> bool" where
  "hasQuery None = False"
| "hasQuery (Some q) = (q \<noteq> [])"

definition fetchLimit :: "productSearchFilters \<Rightarrow> nat \<Rightarrow> nat" where
  "fetchLimit filters lmt = (if hasQuery (query filters) then 15000 else lmt + 1)"

text \<open>
  The \<^verbatim>\<open>where\<close> clauses that \<^verbatim>\<open>searchProducts\<close> adds to the query, in its order. A
  string filter is added when it is present and not empty, the others when they are
  present. An equality on a field that is \<^verbatim>\<open>null\<close> in the document does not hold.
\<close>

fun whereEquals :: "string option \<Rightarrow> string \<Rightarrow> bool" where
  "whereEquals None v = True"
| "whereEquals (Some f) v = (f = [] \<or> v = f)"

fun whereEqualsNullable :: "string option \<Rightarrow> string option \<Rightarrow> bool" where
  "whereEqualsNullable None v = True"
| "whereEqualsNullable (Some f) v = (f = [] \<or> v = Some f)"

fun whereAtLeast :: "real option \<Rightarrow> real \<Rightarrow> bool" where
  "whereAtLeast None v = True"
| "whereAtLeast (Some m) v = (m \<le> v)"

fun whereAtMost :: "real option \<Rightarrow> real \<Rightarrow> bool" where
  "whereAtMost None v = True"
| "whereAtMost (Some m) v = (v \<le> m)"

definition satisfiesWhere :: "productSearchFilters \<Rightarrow> product \<Rightarrow> bool" where
  "satisfiesWhere filters p =
     (whereEquals (whereType filters) (type p)
      \<and> whereEquals (whereCountry filters) (country p)
      \<and> whereEquals (whereAssortment filters) (assortment p)
      \<and> whereEqualsNullable (whereSpecialGroup filters) (specialGroup p)
      \<and> whereEqualsNullable (whereBeerType filters) (beerType p)
      \<and> (case whereIsNew filters of None \<Rightarrow> True | Some b \<Rightarrow> isNew p = b)
      \<and> whereAtLeast (minPrice filters) (price p)
      \<and> whereAtMost (maxPrice filters) (price p)
      \<and> whereAtLeast (minAlcohol filters) (alcoholPercentage p)
      \<and> whereAtMost (maxAlcohol filters) (alcoholPercentage p))"

text \<open>
  The query that \<^verbatim>\<open>searchProducts\<close> sends to the store, on the documents of the
  collection: the documents that satisfy the \<^verbatim>\<open>where\<close> clauses, in the order of
  \<^verbatim>\<open>orderBy(sortBy, sortOrder)\<close>, cut by \<^verbatim>\<open>limit(fetchLimit)\<close>. How the store orders
  a list of documents is its own business and a parameter \<open>orderBy\<close> of the model; it
  may leave out the documents that lack the field of the order. No offset goes to the
  store. The store is taken to answer the query.
\<close>

definition storeQuery ::
  "(sortField \<Rightarrow> sortDirection \<Rightarrow> product list \<Rightarrow> product list) \<Rightarrow> productSearchFilters
     \<Rightarrow> sortField \<Rightarrow> sortDirection \<Rightarrow> nat \<Rightarrow> product list \<Rightarrow> product list" where
  "storeQuery orderBy filters sb so n collection =
     take n (orderBy sb so (filter (satisfiesWhere filters) collection))"

definition atLeastSmokiness :: "nat \<Rightarrow> product \<Rightarrow> bool" where
  "atLeastSmokiness m p = (case smokiness p of None \<Rightarrow> False | Some s \<Rightarrow> m \<le> s)"

definition atMostSmokiness :: "nat \<Rightarrow> product \<Rightarrow> bool" where
  "atMostSmokiness m p = (case smokiness p of None \<Rightarrow> False | Some s \<Rightarrow> s \<le> m)"

text \<open>
  What \<^verbatim>\<open>searchProducts\<close> does with the documents of the store's answer before it
  paginates: it ranks them by relevance when a text query is given, then filters them by
  smokiness.
\<close>

definition postFilter ::
  "(string \<Rightarrow> string) \<Rightarrow> (string \<Rightarrow> string \<Rightarrow> int) \<Rightarrow> productSearchFilters \<Rightarrow> product list
     \<Rightarrow> product list" where
  "postFilter toLowerCase lc filters snapshot =
     (let ps1 = (case query filters of
                   None \<Rightarrow> snapshot
                 | Some q \<Rightarrow> if q \<noteq> [] then textSearch toLowerCase lc q snapshot else snapshot);
          ps2 = (case minSmokiness filters of
                   None \<Rightarrow> ps1
                 | Some m \<Rightarrow> filter (atLeastSmokiness m) ps1);
          ps3 = (case maxSmokiness filters of
                   None \<Rightarrow> ps2
                 | Some m \<Rightarrow> filter (atMostSmokiness m) ps2)
      in ps3)"

definition searchProducts ::
  "(sortField \<Rightarrow> sortDirection \<Rightarrow> product list \<Rightarrow> product list) \<Rightarrow> (string \<Rightarrow> string)
     \<Rightarrow> (string \<Rightarrow> string \<Rightarrow> int) \<Rightarrow> productSearchFilters \<Rightarrow> productSearchOptions
     \<Rightarrow> product list \<Rightarrow> productSearchResult" where
  "searchProducts orderBy toLowerCase lc filters options collection =
     (let sb = (case sortBy options of None \<Rightarrow> ByName | Some f \<Rightarrow> f);
          so = (case sortOrder options of None \<Rightarrow> Asc | Some d \<Rightarrow> d);
          lmt = (case limit options of None \<Rightarrow> 20 | Some l \<Rightarrow> l);
          off = (case offset options of None \<Rightarrow> 0 | Some k \<Rightarrow> k);
          snapshot = storeQuery orderBy filters sb so (fetchLimit filters lmt) collection;
          ps = postFilter toLowerCase lc filters snapshot;
          tot = length ps;
          paginatedProducts = slice off (off + lmt) ps
      in \<lparr>products = paginatedProducts, total = tot, resultLimit = lmt, resultOffset = off,
          hasMore = (tot > off + lmt)\<rparr>)"

subsection \<open>Example catalog items\<close>

definition bordeauxBlend :: product where
  "bordeauxBlend =
     \<lparr>id = ''004512'', name = ''Chateau Lamothe 2019'', producer = ''Vignobles Lamothe'',
      price = 18.9,
      type = ''punaviinit'', subtype = Some ''Meheva & Hilloinen'', specialGroup = None,
      beerType = None, country = ''Ranska'',
      region = Some ''Bordeaux'', grapes = Some ''Cabernet Sauvignon, Cabernet Franc'',
      description = Some ''Marjaisa, sauvignon ja cabernet franc'',
      tasteProfile = None, usageTips = None, servingSuggestion = None, foodPairings = None,
      certificates = None, ingredients = None, smokiness = None, smokinessLabel = None,
      alcoholPercentage = 13.5, assortment = ''vakiovalikoima'', isNew = False,
      updatedAt = 0, createdAt = 0\<rparr>"

definition viina :: product where
  "viina =
     \<lparr>id = ''000132'', name = ''Viina'', producer = ''Altia'',
      price = 12.99,
      type = ''vodkat ja viinat'', subtype = None, specialGroup = None, beerType = None,
      country = ''Suomi'',
      region = None, grapes = None, description = None,
      tasteProfile = None, usageTips = None, servingSuggestion = None, foodPairings = None,
      certificates = None, ingredients = None, smokiness = None, smokinessLabel = None,
      alcoholPercentage = 38, assortment = ''vakiovalikoima'', isNew = False,
      updatedAt = 0, createdAt = 0\<rparr>"

definition koskenkorvaViina :: product where
  "koskenkorvaViina = viina\<lparr>id := ''000706'', name := ''Koskenkorva Viina''\<rparr>"

definition viinaZzz :: product where
  "viinaZzz = viina\<lparr>id := ''000999'', name := ''Viina Zzz''\<rparr>"

definition twoDigits :: "nat \<Rightarrow> string" where
  "twoDigits n = [char_of (48 + n div 10), char_of (48 + n mod 10)]"

text \<open>Fifty-seven items that differ in their id only.\<close>

definition viinaCatalog :: "product list" where
  "viinaCatalog = map (\<lambda>i. viina\<lparr>id := ''0001'' @ twoDigits i\<rparr>) [0..<57]"

text \<open>A catalog of 15001 items in the order of their names, the last of them \<^const>\<open>viina\<close>.\<close>

fun decimalDigits :: "nat \<Rightarrow> nat \<Rightarrow> string" where
  "decimalDigits 0 n = []"
| "decimalDigits (Suc w) n = decimalDigits w (n div 10) @ [char_of (48 + n mod 10)]"

definition largeCatalog :: "product list" where
  "largeCatalog =
     map (\<lambda>i. koskenkorvaViina\<lparr>id := ''1'' @ decimalDigits 5 i\<rparr>) [0..<15000] @ [viina]"

definition noFilters :: productSearchFilters where
  "noFilters =
     \<lparr>query = None, whereType = None, whereCountry = None, whereAssortment = None,
      whereSpecialGroup = None, whereBeerType = None, whereIsNew = None,
      minPrice = None, maxPrice = None, minAlcohol = None, maxAlcohol = None,
      minSmokiness = None, maxSmokiness = None\<rparr>"

definition viinaQuery :: productSearchFilters where
  "viinaQuery = noFilters\<lparr>query := Some ''viina''\<rparr>"

definition fromFinland :: productSearchFilters where
  "fromFinland = noFilters\<lparr>whereCountry := Some ''Suomi''\<rparr>"

text \<open>The default options with a limit and an offset.\<close>

definition page :: "nat \<Rightarrow> nat \<Rightarrow> productSearchOptions" where
  "page lmt off = \<lparr>sortBy = None, sortOrder = None, limit = Some lmt, offset = Some off\<rparr>"

text \<open>A store that lists documents in the order of the collection, for the examples.\<close>

definition collectionOrder :: "sortField \<Rightarrow> sortDirection \<Rightarrow> product list \<Rightarrow> product list" where
  "collectionOrder sb so docs = docs"

section \<open>The document store and batch upsert (services/firestore.ts)\<close>

text \<open>
  The \<^verbatim>\<open>products\<close> collection is a map from document ids to documents. The store is
  taken to answer every read and to commit every batch. \<^verbatim>\<open>Timestamp.now()\<close> reads a
  clock that is part of the state; every reading advances it, so no two readings are
  equal.
\<close>

type_synonym productCollection = "string \<Rightarrow> product option"

record firestoreState =
  productDocs :: productCollection
  clock :: nat

text \<open>
  The state of the loops of \<^verbatim>\<open>upsertProducts\<close>: the writes that the current batch
  holds (in the order of the \<^verbatim>\<open>batch.set\<close> calls), the clock and the two counters.
\<close>

record upsertProgress =
  batch :: "(string \<times> product) list"
  now :: nat
  added :: nat
  updated :: nat

record upsertResult =
  resultAdded :: nat
  resultUpdated :: nat

definition BATCH_SIZE :: nat where
  "BATCH_SIZE = 500"

text \<open>
  The body of the inner loop. \<^verbatim>\<open>ref.get()\<close> reads the committed documents \<open>docs\<close>;
  the writes of the current batch are not visible before \<^verbatim>\<open>batch.commit()\<close>.
\<close>

definition upsertOne :: "productCollection \<Rightarrow> upsertProgress \<Rightarrow> product \<Rightarrow> upsertProgress" where
  "upsertOne docs st p =
     (case docs (id p) of
        Some existingData \<Rightarrow>
          st\<lparr>batch := batch st @ [(id p, p\<lparr>createdAt := createdAt existingData, updatedAt := now st\<rparr>)],
             now := Suc (now st),
             updated := Suc (updated st)\<rparr>
      | None \<Rightarrow>
          st\<lparr>batch := batch st @ [(id p, p\<lparr>createdAt := now st, updatedAt := Suc (now st)\<rparr>)],
             now := Suc (Suc (now st)),
             added := Suc (added st)\<rparr>)"

definition batchCommit :: "productCollection \<Rightarrow> (string \<times> product) list \<Rightarrow> productCollection" where
  "batchCommit docs writes = foldl (\<lambda>d (k, v). d(k \<mapsto> v)) docs writes"

function upsertChunks ::
  "productCollection \<Rightarrow> upsertProgress \<Rightarrow> product list \<Rightarrow> productCollection \<times> upsertProgress" where
  "upsertChunks docs st ps =
     (if ps = [] then (docs, st)
      else let chunk = take BATCH_SIZE ps;
               st' = foldl (upsertOne docs) (st\<lparr>batch := []\<rparr>) chunk;
               docs' = batchCommit docs (batch st')
           in upsertChunks docs' st' (drop BATCH_SIZE ps))"
  by pat_completeness auto
termination
  by (relation "measure (\<lambda>(docs, st, ps). length ps)") (auto simp: BATCH_SIZE_def)

definition upsertProducts :: "firestoreState \<Rightarrow> product list \<Rightarrow> upsertResult \<times> firestoreState" where
  "upsertProducts w ps =
     (case upsertChunks (productDocs w) \<lparr>batch = [], now = clock w, added = 0, updated = 0\<rparr> ps of
        (docs', st') \<Rightarrow>
          (\<lparr>resultAdded = added st', resultUpdated = updated st'\<rparr>,
           \<lparr>productDocs = docs', clock = now st'\<rparr>))"

definition emptyStore :: firestoreState where
  "emptyStore = \<lparr>productDocs = (\<lambda>k. None), clock = 0\<rparr>"

section \<open>Bootstrap (ensureData in services/data-sync.ts)\<close>

text \<open>
  JavaScript runs one piece of code at a time: a call of \<^verbatim>\<open>ensureData\<close> runs up to its
  first \<^verbatim>\<open>await\<close> without interruption, and the body of the loading operation runs
  from one \<^verbatim>\<open>await\<close> to the next without interruption. Concurrent callers are therefore
  modelled as a sequence of events: a call, or the settling of the promise that the loading
  operation is waiting for. An event that finds nothing waiting for it changes nothing.

  The state holds the two module variables, the place where the loading operation waits
  (part of \<^verbatim>\<open>seedDataLoading\<close>, which is \<^verbatim>\<open>null\<close> when it is \<open>None\<close>), and three
  counters for the statements: the runs of \<^verbatim>\<open>loadSeedData\<close>, the callers that hold the
  promise in flight, and the callers whose promise has settled.
\<close>

datatype awaited = AwaitProductCount | AwaitUpsertProducts | AwaitUpsertStore nat

datatype outcome = Resolved | Rejected

datatype event =
    Call
  | ProductCount "nat option"
  | UpsertProductsDone outcome
  | UpsertStoreDone outcome

text \<open>The bundled seed file, as far as the control flow reads it: the two lengths.\<close>

record seedData =
  seedProducts :: nat
  seedStores :: nat

record bootstrap =
  seedDataChecked :: bool
  seedDataLoading :: "awaited option"
  seedLoads :: nat
  awaiting :: nat
  settled :: nat

definition bootInit :: bootstrap where
  "bootInit = \<lparr>seedDataChecked = False, seedDataLoading = None, seedLoads = 0, awaiting = 0, settled = 0\<rparr>"

text \<open>
  The end of the loading operation on every path, by \<^verbatim>\<open>return\<close> or by \<^verbatim>\<open>throw\<close>:
  \<^verbatim>\<open>seedDataChecked = true\<close>, then \<^verbatim>\<open>seedDataLoading = null\<close> in the \<^verbatim>\<open>finally\<close>
  block, then the promise settles for everybody who holds it.
\<close>

definition finish :: "bootstrap \<Rightarrow> bootstrap" where
  "finish s = s\<lparr>seedDataChecked := True, seedDataLoading := None,
                settled := settled s + awaiting s, awaiting := 0\<rparr>"

text \<open>The loop over the seed stores, before the upsert of the next store.\<close>

definition loadStores :: "nat \<Rightarrow> bootstrap \<Rightarrow> bootstrap" where
  "loadStores n s = (if n > 0 then s\<lparr>seedDataLoading := Some (AwaitUpsertStore (n - 1))\<rparr> else finish s)"

text \<open>The body between the answer of \<^verbatim>\<open>getProductCount\<close> and the next \<^verbatim>\<open>await\<close>.\<close>

definition afterProductCount :: "seedData option \<Rightarrow> nat \<Rightarrow> bootstrap \<Rightarrow> bootstrap" where
  "afterProductCount seed productCount s =
     (if productCount > 0 then finish s
      else let s1 = s\<lparr>seedLoads := seedLoads s + 1\<rparr>
           in case seed of
                None \<Rightarrow> finish s1
              | Some sd \<Rightarrow>
                  if seedProducts sd = 0 \<and> seedStores sd = 0 then finish s1
                  else if seedProducts sd > 0 then s1\<lparr>seedDataLoading := Some AwaitUpsertProducts\<rparr>
                  else loadStores (seedStores sd) s1)"

fun bootStep :: "seedData option \<Rightarrow> bootstrap \<Rightarrow> event \<Rightarrow> bootstrap" where
  "bootStep seed s Call =
     (if seedDataChecked s then s\<lparr>settled := settled s + 1\<rparr>
      else if seedDataLoading s \<noteq> None then s\<lparr>awaiting := awaiting s + 1\<rparr>
      else s\<lparr>seedDataLoading := Some AwaitProductCount, awaiting := awaiting s + 1\<rparr>)"
| "bootStep seed s (ProductCount r) =
     (if seedDataLoading s = Some AwaitProductCount
      then (case r of None \<Rightarrow> finish s | Some n \<Rightarrow> afterProductCount seed n s)
      else s)"
| "bootStep seed s (UpsertProductsDone r) =
     (if seedDataLoading s = Some AwaitUpsertProducts
      then (case r of
              Rejected \<Rightarrow> finish s
            | Resolved \<Rightarrow> loadStores (case seed of None \<Rightarrow> 0 | Some sd \<Rightarrow> seedStores sd) s)
      else s)"
| "bootStep seed s (UpsertStoreDone r) =
     (case seedDataLoading s of
        Some (AwaitUpsertStore k) \<Rightarrow>
          (case r of Rejected \<Rightarrow> finish s | Resolved \<Rightarrow> loadStores k s)
      | _ \<Rightarrow> s)"

definition bootRun :: "seedData option \<Rightarrow> bootstrap \<Rightarrow> event list \<Rightarrow> bootstrap" where
  "bootRun seed s evs = foldl (bootStep seed) s evs"

text \<open>What holds of every state that a sequence of events reaches from \<^const>\<open>bootInit\<close>.\<close>

definition bootInv :: "nat \<Rightarrow> bootstrap \<Rightarrow> bool" where
  "bootInv calls s =
     (awaiting s + settled s = calls
      \<and> (if seedDataChecked s then seedDataLoading s = None \<and> awaiting s = 0 \<and> seedLoads s \<le> 1
         else case seedDataLoading s of
                None \<Rightarrow> seedLoads s = 0 \<and> calls = 0
              | Some AwaitProductCount \<Rightarrow> seedLoads s = 0 \<and> awaiting s > 0
              | Some _ \<Rightarrow> seedLoads s = 1 \<and> awaiting s > 0))"

definition isCall :: "event \<Rightarrow> bool" where
  "isCall ev = (ev = Call)"

definition bundledSeed :: "seedData option" where
  "bundledSeed = Some \<lparr>seedProducts = 2, seedStores = 1\<rparr>"

section \<open>Availability (services/scraper.ts, tools/get-availability.ts)\<close>

datatype availabilityStatus = in_stock | low_stock | out_of_stock

record storeAvailability =
  availabilityId :: string
  productId :: string
  storeId :: string
  storeName :: string
  storeLink :: string
  quantity :: nat
  status :: availabilityStatus
  lastUpdated :: string
  checkedAt :: nat

record availabilityResult =
  resultProductId :: string
  productName :: string
  stores :: "storeAvailability list"
  resultCheckedAt :: nat
  fromCache :: bool

text \<open>
  The scraper with what it reads and writes: the live entries of its in-memory cache, the
  documents of the \<^verbatim>\<open>availability\<close> collection in the order in which the store lists
  them, and the clock.
\<close>

record scraperState =
  cache :: "string \<Rightarrow> availabilityResult option"
  availabilityDocs :: "storeAvailability list"
  timeNow :: nat

text \<open>
  What the browser part of \<^verbatim>\<open>getProductAvailability\<close> comes to: an error (from the
  session, the navigation or the page script), or the entries read from the page, already
  converted to \<^verbatim>\<open>StoreAvailability\<close>.
\<close>

datatype scrapeOutcome = ScrapeError string | Scraped "storeAvailability list"

text \<open>\<^verbatim>\<open>doc(id).set(record)\<close> on the collection: overwrite the document or add it.\<close>

fun setDoc :: "storeAvailability \<Rightarrow> storeAvailability list \<Rightarrow> storeAvailability list" where
  "setDoc r [] = [r]"
| "setDoc r (d # ds) = (if availabilityId d = availabilityId r then r # ds else d # setDoc r ds)"

text \<open>
  \<^verbatim>\<open>upsertAvailability\<close>. Its batches of 500 only group the writes; nothing is read
  between them.
\<close>

fun upsertAvailability :: "storeAvailability list \<Rightarrow> scraperState \<Rightarrow> scraperState" where
  "upsertAvailability [] st = st"
| "upsertAvailability (r # records) st =
     upsertAvailability records
       (st\<lparr>availabilityDocs :=
              setDoc (r\<lparr>availabilityId := productId r @ ''_'' @ storeId r, checkedAt := timeNow st\<rparr>)
                (availabilityDocs st),
           timeNow := Suc (timeNow st)\<rparr>)"

text \<open>\<^verbatim>\<open>firestore.getAvailability(productId)\<close>\<close>

definition storedAvailability :: "scraperState \<Rightarrow> string \<Rightarrow> storeAvailability list" where
  "storedAvailability st pid = filter (\<lambda>d. productId d = pid) (availabilityDocs st)"

definition getProductAvailability ::
  "scraperState \<Rightarrow> string \<Rightarrow> string option \<Rightarrow> scrapeOutcome
     \<Rightarrow> (string + availabilityResult) \<times> scraperState" where
  "getProductAvailability st pid pname outcome =
     (case cache st pid of
        Some cached \<Rightarrow> (Inr (cached\<lparr>fromCache := True\<rparr>), st)
      | None \<Rightarrow>
          (case outcome of
             ScrapeError e \<Rightarrow> (Inl e, st)
           | Scraped scrapedStores \<Rightarrow>
               let result = \<lparr>resultProductId = pid,
                             productName = (case pname of
                                              None \<Rightarrow> pid
                                            | Some n \<Rightarrow> if n = [] then pid else n),
                             stores = scrapedStores,
                             resultCheckedAt = timeNow st,
                             fromCache = False\<rparr>;
                   st1 = st\<lparr>cache := (cache st)(pid \<mapsto> result), timeNow := Suc (timeNow st)\<rparr>;
                   st2 = (if scrapedStores \<noteq> [] then upsertAvailability scrapedStores st1 else st1)
               in (Inr result, st2)))"

definition getCachedAvailability ::
  "scraperState \<Rightarrow> string \<Rightarrow> availabilityResult option \<times> scraperState" where
  "getCachedAvailability st pid =
     (case cache st pid of
        Some cached \<Rightarrow> (Some (cached\<lparr>fromCache := True\<rparr>), st)
      | None \<Rightarrow>
          (case storedAvailability st pid of
             [] \<Rightarrow> (None, st)
           | d # ds \<Rightarrow>
               let result = \<lparr>resultProductId = pid, productName = pid, stores = d # ds,
                             resultCheckedAt = checkedAt d, fromCache = True\<rparr>
               in (Some result, st\<lparr>cache := (cache st)(pid \<mapsto> result)\<rparr>)))"

record getAvailabilityInput =
  inputProductId :: string
  city :: "string option"
  forceRefresh :: bool

text \<open>The city filter that the tool applies: \<^verbatim>\<open>if (input.city)\<close>, then the filter.\<close>

definition nameContainsCity :: "(string \<Rightarrow> string) \<Rightarrow> string \<Rightarrow> storeAvailability \<Rightarrow> bool" where
  "nameContainsCity toLowerCase c s = includesStr (toLowerCase (storeName s)) (toLowerCase c)"

definition filterByCity ::
  "(string \<Rightarrow> string) \<Rightarrow> string option \<Rightarrow> storeAvailability list \<Rightarrow> storeAvailability list" where
  "filterByCity toLowerCase c ss =
     (case c of
        None \<Rightarrow> ss
      | Some cityName \<Rightarrow>
          if cityName = [] then ss else filter (nameContainsCity toLowerCase cityName) ss)"

text \<open>
  The tool, after \<^verbatim>\<open>ensureData\<close>. \<open>pname\<close> is the name of the product document, when
  there is one.
\<close>

definition scrapeFresh ::
  "(string \<Rightarrow> string) \<Rightarrow> getAvailabilityInput \<Rightarrow> string option \<Rightarrow> scrapeOutcome \<Rightarrow> scraperState
     \<Rightarrow> (string + availabilityResult option) \<times> scraperState" where
  "scrapeFresh toLowerCase input pname outcome st =
     (case getProductAvailability st (inputProductId input) pname outcome of
        (Inr result, st1) \<Rightarrow>
          (Inr (Some (result\<lparr>stores := filterByCity toLowerCase (city input) (stores result)\<rparr>)), st1)
      | (Inl error, st1) \<Rightarrow>
          (case getCachedAvailability st1 (inputProductId input) of
             (Some cached, st2) \<Rightarrow> (Inr (Some cached), st2)
           | (None, st2) \<Rightarrow> (Inr None, st2)))"

definition getAvailability ::
  "(string \<Rightarrow> string) \<Rightarrow> getAvailabilityInput \<Rightarrow> string option \<Rightarrow> scrapeOutcome \<Rightarrow> scraperState
     \<Rightarrow> (string + availabilityResult option) \<times> scraperState" where
  "getAvailability toLowerCase input pname outcome st =
     (if \<not> forceRefresh input
      then (case getCachedAvailability st (inputProductId input) of
              (Some cached, st1) \<Rightarrow>
                (Inr (Some (cached\<lparr>stores := filterByCity toLowerCase (city input) (stores cached)\<rparr>)), st1)
            | (None, st1) \<Rightarrow> scrapeFresh toLowerCase input pname outcome st1)
      else scrapeFresh toLowerCase input pname outcome st)"

subsection \<open>Example: a product stocked in Helsinki and in Tampere\<close>

definition kamppi :: storeAvailability where
  "kamppi = \<lparr>availabilityId = ''000132_2102'', productId = ''000132'', storeId = ''2102'',
     storeName = ''Alko Helsinki Kamppi'', storeLink = ''/myymalat-palvelut/2102'',
     quantity = 12, status = in_stock, lastUpdated = '''', checkedAt = 5\<rparr>"

definition koskikeskus :: storeAvailability where
  "koskikeskus = \<lparr>availabilityId = ''000132_2301'', productId = ''000132'', storeId = ''2301'',
     storeName = ''Alko Tampere Koskikeskus'', storeLink = ''/myymalat-palvelut/2301'',
     quantity = 3, status = low_stock, lastUpdated = '''', checkedAt = 6\<rparr>"

definition coldScraper :: scraperState where
  "coldScraper = \<lparr>cache = (\<lambda>k. None), availabilityDocs = [kamppi, koskikeskus], timeNow = 10\<rparr>"

definition helsinkiRefresh :: getAvailabilityInput where
  "helsinkiRefresh = \<lparr>inputProductId = ''000132'', city = Some ''Helsinki'', forceRefresh = True\<rparr>"

text \<open>The same scraper with a live entry for the product in its cache.\<close>

definition liveEntry :: availabilityResult where
  "liveEntry = \<lparr>resultProductId = ''000132'', productName = ''Viina'',
     stores = [kamppi, koskikeskus], resultCheckedAt = 9, fromCache = False\<rparr>"

definition warmScraper :: scraperState where
  "warmScraper = coldScraper\<lparr>cache := [''000132'' \<mapsto> liveEntry]\<rparr>"

section \<open>Download of the price list (services/data-sync.ts)\<close>

record response =
  ok :: bool
  httpStatus :: nat
  statusText :: string
  setCookieHeader :: "string option"
  contentTypeHeader :: "string option"
  body :: string

datatype downloadError =
    FetchFailed string
  | DownloadFailed nat string
  | ReceivedHtml

text \<open>\<^verbatim>\<open>headers.get(name) || ''\<close>\<close>

fun orEmpty :: "string option \<Rightarrow> string" where
  "orEmpty None = []"
| "orEmpty (Some s) = s"

text \<open>
  \<^verbatim>\<open>downloadPriceList\<close>. The two calls of \<^verbatim>\<open>fetch\<close> are parameters: the answer for the
  home page, and the answer for the price list as a function of the cookie header that
  the request carries. A call of \<^verbatim>\<open>fetch\<close> that throws is \<open>Inl\<close>.
\<close>

definition downloadPriceList ::
  "string + response \<Rightarrow> (string \<Rightarrow> string + response) \<Rightarrow> downloadError + string" where
  "downloadPriceList homeFetch excelFetch =
     (case homeFetch of
        Inl e \<Rightarrow> Inl (FetchFailed e)
      | Inr homeResponse \<Rightarrow>
          (let cookies = orEmpty (setCookieHeader homeResponse)
           in case excelFetch cookies of
                Inl e \<Rightarrow> Inl (FetchFailed e)
              | Inr excelResponse \<Rightarrow>
                  if \<not> ok excelResponse
                  then Inl (DownloadFailed (httpStatus excelResponse) (statusText excelResponse))
                  else let contentType = orEmpty (contentTypeHeader excelResponse)
                       in if includesStr contentType ''text/html'' then Inl ReceivedHtml
                          else Inr (body excelResponse)))"

text \<open>
  The spreadsheet types, for the statement of the claim: the two media types that the
  request itself asks for in its \<^verbatim>\<open>Accept\<close> header.
\<close>

definition spreadsheetTypes :: "string list" where
  "spreadsheetTypes =
     [''application/vnd.openxmlformats-officedocument.spreadsheetml.sheet'',
      ''application/vnd.ms-excel'']"

definition isSpreadsheetType :: "string \<Rightarrow> bool" where
  "isSpreadsheetType contentType = list_ex (includesStr contentType) spreadsheetTypes"

subsection \<open>Example: a block page served as JSON\<close>

definition homePage :: response where
  "homePage = \<lparr>ok = True, httpStatus = 200, statusText = ''OK'',
     setCookieHeader = Some ''visid_incap=abc'', contentTypeHeader = Some ''text/html; charset=utf-8'',
     body = ''<html></html>''\<rparr>"

definition blockedAsJson :: response where
  "blockedAsJson = \<lparr>ok = True, httpStatus = 200, statusText = ''OK'',
     setCookieHeader = None, contentTypeHeader = Some ''application/json'',
     body = ''{\"error\":\"request blocked\"}''\<rparr>"

definition priceListXlsx :: response where
  "priceListXlsx = \<lparr>ok = True, httpStatus = 200, statusText = ''OK'',
     setCookieHeader = None,
     contentTypeHeader = Some ''application/vnd.openxmlformats-officedocument.spreadsheetml.sheet'',
     body = ''PK...''\<rparr>"

definition answering :: "response \<Rightarrow> string \<Rightarrow> string + response" where
  "answering r cookies = Inr r"

section \<open>Enrichment (services/scraper.ts, tools/get-product.ts)\<close>

text \<open>
  The product page as the page script sees it. The four text sections come from regular
  expressions over the page text and are taken as extracted. The smokiness widget is the
  first element of class \<^verbatim>\<open>smokiness\<close>, with the trimmed text of its label element, if
  it has one, and the class lists of the elements inside it. The two label lists are the
  \<^verbatim>\<open>aria-label\<close> attributes of the elements that the certificate selector and the
  pairing selector match, in document order.
\<close>

record smokinessWidget =
  labelText :: "string option"
  elementClasses :: "string list list"

record productPage =
  pageTasteProfile :: "string option"
  pageUsageTips :: "string option"
  pageServingSuggestion :: "string option"
  pageIngredients :: "string option"
  smokinessContainer :: "smokinessWidget option"
  certificateLabels :: "string list"
  pairingLabels :: "string list"

record enrichedProductData =
  enrichedTasteProfile :: "string option"
  enrichedUsageTips :: "string option"
  enrichedServingSuggestion :: "string option"
  enrichedFoodPairings :: "string list"
  enrichedCertificates :: "string list"
  enrichedIngredients :: "string option"
  enrichedSmokiness :: "nat option"
  enrichedSmokinessLabel :: "string option"

text \<open>The selector \<^verbatim>\<open>.smokiness-icon.smokey\<close>: both classes on one element.\<close>

definition isSmokeyIcon :: "string list \<Rightarrow> bool" where
  "isSmokeyIcon classes = (''smokiness-icon'' \<in> set classes \<and> ''smokey'' \<in> set classes)"

definition isSmokinessIcon :: "string list \<Rightarrow> bool" where
  "isSmokinessIcon classes = (''smokiness-icon'' \<in> set classes)"

text \<open>The loops with \<^verbatim>\<open>seenCerts\<close> and \<^verbatim>\<open>seenPairings\<close>: first occurrences, no empty label.\<close>

fun unseenLabels :: "string list \<Rightarrow> string list \<Rightarrow> string list" where
  "unseenLabels seen [] = []"
| "unseenLabels seen (l # ls) =
     (if l \<noteq> [] \<and> l \<notin> set seen then l # unseenLabels (l # seen) ls else unseenLabels seen ls)"

definition extractEnrichedData :: "productPage \<Rightarrow> enrichedProductData" where
  "extractEnrichedData pg =
     \<lparr>enrichedTasteProfile = pageTasteProfile pg,
      enrichedUsageTips = pageUsageTips pg,
      enrichedServingSuggestion = pageServingSuggestion pg,
      enrichedFoodPairings = unseenLabels [] (pairingLabels pg),
      enrichedCertificates = unseenLabels [] (certificateLabels pg),
      enrichedIngredients = pageIngredients pg,
      enrichedSmokiness =
        (case smokinessContainer pg of
           None \<Rightarrow> None
         | Some w \<Rightarrow> Some (length (filter isSmokeyIcon (elementClasses w)))),
      enrichedSmokinessLabel =
        (case smokinessContainer pg of
           None \<Rightarrow> None
         | Some w \<Rightarrow>
             (case labelText w of
                None \<Rightarrow> None
              | Some t \<Rightarrow> if t = [] then None else Some t))\<rparr>"

text \<open>
  \<^verbatim>\<open>scrapeProductDetails\<close>: an error while the session is set up is thrown to the
  caller, an error of the navigation or of the page script is caught and answered with
  \<^verbatim>\<open>null\<close>.
\<close>

datatype pageOutcome = SessionFailed string | NavigationFailed string | PageLoaded productPage

fun scrapeProductDetails :: "pageOutcome \<Rightarrow> string + enrichedProductData option" where
  "scrapeProductDetails (SessionFailed e) = Inl e"
| "scrapeProductDetails (NavigationFailed e) = Inr None"
| "scrapeProductDetails (PageLoaded pg) = Inr (Some (extractEnrichedData pg))"

text \<open>A value of type \<^verbatim>\<open>string | null\<close> in a condition.\<close>

fun truthy :: "string option \<Rightarrow> bool" where
  "truthy None = False"
| "truthy (Some s) = (s \<noteq> [])"

fun nonEmptyList :: "string list option \<Rightarrow> bool" where
  "nonEmptyList None = False"
| "nonEmptyList (Some l) = (l \<noteq> [])"

definition hasEnrichedData :: "product \<Rightarrow> bool" where
  "hasEnrichedData p =
     (truthy (tasteProfile p) \<or> truthy (usageTips p) \<or> truthy (servingSuggestion p)
      \<or> nonEmptyList (foodPairings p) \<or> nonEmptyList (certificates p)
      \<or> truthy (ingredients p) \<or> smokiness p \<noteq> None)"

text \<open>The object \<^verbatim>\<open>enrichedFields\<close>, spread over a product.\<close>

definition withEnrichedFields :: "enrichedProductData \<Rightarrow> product \<Rightarrow> product" where
  "withEnrichedFields e p =
     p\<lparr>tasteProfile := enrichedTasteProfile e,
       usageTips := enrichedUsageTips e,
       servingSuggestion := enrichedServingSuggestion e,
       foodPairings := (if enrichedFoodPairings e \<noteq> [] then Some (enrichedFoodPairings e) else None),
       certificates := (if enrichedCertificates e \<noteq> [] then Some (enrichedCertificates e) else None),
       ingredients := enrichedIngredients e,
       smokiness := enrichedSmokiness e,
       smokinessLabel := enrichedSmokinessLabel e\<rparr>"

text \<open>
  \<^verbatim>\<open>firestore.updateProduct\<close> inside its own \<^verbatim>\<open>try\<close>: an update of a missing
  document fails and is only logged.
\<close>

definition updateProduct :: "string \<Rightarrow> enrichedProductData \<Rightarrow> firestoreState \<Rightarrow> firestoreState" where
  "updateProduct pid e w =
     (case productDocs w pid of
        None \<Rightarrow> w
      | Some d \<Rightarrow>
          w\<lparr>productDocs := (productDocs w)(pid \<mapsto> (withEnrichedFields e d)\<lparr>updatedAt := clock w\<rparr>),
            clock := Suc (clock w)\<rparr>)"

record getProductInput =
  getProductId :: string
  includeEnrichedData :: bool

record getProductState =
  firestore :: firestoreState
  productCache :: productCollection

definition getProduct ::
  "getProductInput \<Rightarrow> pageOutcome \<Rightarrow> getProductState \<Rightarrow> product option \<times> getProductState" where
  "getProduct input outcome st =
     (let pid = getProductId input;
          cached = productCache st pid
      in if cached \<noteq> None \<and> \<not> includeEnrichedData input then (cached, st)
         else case productDocs (firestore st) pid of
                None \<Rightarrow> (None, st)
              | Some p \<Rightarrow>
                  let (p', w') =
                        (if includeEnrichedData input \<and> \<not> hasEnrichedData p
                         then (case scrapeProductDetails outcome of
                                 Inr (Some enrichedData) \<Rightarrow>
                                   (withEnrichedFields enrichedData p,
                                    updateProduct pid enrichedData (firestore st))
                               | _ \<Rightarrow> (p, firestore st))
                         else (p, firestore st))
                  in (Some p', st\<lparr>firestore := w', productCache := (productCache st)(pid \<mapsto> p')\<rparr>))"

subsection \<open>Example: a page with five active smokiness icons\<close>

definition fiveSmokeyIcons :: productPage where
  "fiveSmokeyIcons =
     \<lparr>pageTasteProfile = None, pageUsageTips = None, pageServingSuggestion = None,
      pageIngredients = None,
      smokinessContainer =
        Some \<lparr>labelText = Some ''voimakkaan savuinen'',
              elementClasses =
                [[''smokiness-label''], [''smokiness-icons''],
                 [''smokiness-icon'', ''smokey''], [''smokiness-icon'', ''smokey''],
                 [''smokiness-icon'', ''smokey''], [''smokiness-icon'', ''smokey''],
                 [''smokiness-icon'', ''smokey'']]\<rparr>,
      certificateLabels = [], pairingLabels = []\<rparr>"

definition threeOfFourIcons :: productPage where
  "threeOfFourIcons =
     fiveSmokeyIcons\<lparr>smokinessContainer :=
        Some \<lparr>labelText = Some ''savuinen'',
              elementClasses =
                [[''smokiness-label''], [''smokiness-icons''],
                 [''smokiness-icon'', ''smokey''], [''smokiness-icon'', ''smokey''],
                 [''smokiness-icon'', ''smokey''], [''smokiness-icon'']]\<rparr>\<rparr>"

definition islayMalt :: product where
  "islayMalt = viina\<lparr>id := ''106320'', name := ''Laphroaig 10 Year Old'', producer := ''Laphroaig'',
     type := ''viskit'', country := ''Skotlanti''\<rparr>"

definition whiskyShelf :: getProductState where
  "whiskyShelf =
     \<lparr>firestore = \<lparr>productDocs = (\<lambda>k. if k = ''106320'' then Some islayMalt else None), clock = 20\<rparr>,
      productCache = (\<lambda>k. None)\<rparr>"

definition enrichIslayMalt :: getProductInput where
  "enrichIslayMalt = \<lparr>getProductId = ''106320'', includeEnrichedData = True\<rparr>"

section \<open>Store hours (tools/get-store-hours.ts)\<close>

text \<open>
  A \<^verbatim>\<open>Date\<close>, as far as the tool reads it: the local calendar fields. A \<^verbatim>\<open>Store\<close>
  document with the fields that the tool reads; its field names carry the prefix
  \<open>outlet\<close> where the plain name is the name of a field of another record. A missing
  update timestamp is \<open>None\<close>.
\<close>

record jsDate =
  getFullYear :: nat
  getMonth :: nat
  getDate :: nat
  getHours :: nat

record store =
  outletId :: string
  outletName :: string
  outletCity :: string
  address :: string
  postalCode :: string
  openingHoursToday :: "string option"
  openingHoursTomorrow :: "string option"
  outletUpdatedAt :: "jsDate option"

definition isDigit :: "char \<Rightarrow> bool" where
  "isDigit c = (c \<in> set ''0123456789'')"

text \<open>\<^verbatim>\<open>parseInt(digits, 10)\<close> on a string of decimal digits.\<close>

definition parseInt :: "string \<Rightarrow> nat" where
  "parseInt ds = foldl (\<lambda>n c. 10 * n + (of_char c - 48)) 0 ds"

text \<open>
  The regular expression \<^verbatim>\<open>/(\d{1,2})-(\d{1,2})/\<close>: the leftmost match, each group
  as long as it can be. \<open>secondGroup\<close> reads the group after the hyphen, \<open>matchHoursAt\<close>
  tries a match at the start of the string.
\<close>

fun secondGroup :: "string \<Rightarrow> string option" where
  "secondGroup [] = None"
| "secondGroup [e1] = (if isDigit e1 then Some [e1] else None)"
| "secondGroup (e1 # e2 # rest) =
     (if isDigit e1 then (if isDigit e2 then Some [e1, e2] else Some [e1]) else None)"

fun matchHoursAt :: "string \<Rightarrow> (string \<times> string) option" where
  "matchHoursAt (d1 # d2 # rest) =
     (if isDigit d1 \<and> isDigit d2
      then (case rest of
              [] \<Rightarrow> None
            | c # rest' \<Rightarrow>
                if c = CHR ''-'' then map_option (Pair [d1, d2]) (secondGroup rest') else None)
      else if isDigit d1 \<and> d2 = CHR ''-'' then map_option (Pair [d1]) (secondGroup rest)
      else None)"
| "matchHoursAt s = None"

fun matchHours :: "string \<Rightarrow> (string \<times> string) option" where
  "matchHours [] = None"
| "matchHours (c # cs) =
     (case matchHoursAt (c # cs) of Some m \<Rightarrow> Some m | None \<Rightarrow> matchHours cs)"

definition isStoreOpenNow :: "string option \<Rightarrow> nat \<Rightarrow> bool" where
  "isStoreOpenNow openingHours currentHour =
     (case openingHours of
        None \<Rightarrow> False
      | Some h \<Rightarrow>
          if h = [] \<or> h = ''SULJETTU'' then False
          else (case matchHours h of
                  None \<Rightarrow> False
                | Some (openHour, closeHour) \<Rightarrow>
                    parseInt openHour \<le> currentHour \<and> currentHour < parseInt closeHour))"

definition isStoreDataStale :: "store \<Rightarrow> jsDate \<Rightarrow> bool" where
  "isStoreDataStale s today =
     (case outletUpdatedAt s of
        None \<Rightarrow> True
      | Some updatedDate \<Rightarrow>
          getFullYear updatedDate \<noteq> getFullYear today
          \<or> getMonth updatedDate \<noteq> getMonth today
          \<or> getDate updatedDate \<noteq> getDate today)"

record getStoreHoursInput =
  hoursStoreId :: "string option"
  hoursStoreName :: "string option"
  hoursCity :: "string option"
  openNow :: "bool option"
  hoursLimit :: nat

record storeHours =
  entryId :: string
  entryName :: string
  entryCity :: string
  entryAddress :: string
  entryOpeningHoursToday :: "string option"
  entryOpeningHoursTomorrow :: "string option"
  isOpenNow :: bool

text \<open>The answer of the tool, without its two fields that only report the time.\<close>

record storeHoursAnswer =
  answerStores :: "storeHours list"
  refreshed :: bool
  refreshError :: "string option"

text \<open>\<^verbatim>\<open>firestore.getStore\<close> and \<^verbatim>\<open>firestore.listStores\<close> on the collection.\<close>

definition getStore :: "store list \<Rightarrow> string \<Rightarrow> store option" where
  "getStore coll sid = find (\<lambda>s. outletId s = sid) coll"

definition listStores ::
  "(string \<Rightarrow> string) \<Rightarrow> (string \<Rightarrow> string \<Rightarrow> int) \<Rightarrow> string option \<Rightarrow> nat \<Rightarrow> store list
     \<Rightarrow> store list" where
  "listStores toLowerCase lc c lmt coll =
     (let matching = (if truthy c
                      then filter (\<lambda>s. toLowerCase (outletCity s) = toLowerCase (orEmpty c)) coll
                      else coll)
      in slice 0 lmt (arraySort (\<lambda>a b. lc (outletName a) (outletName b)) matching))"

text \<open>The stores that the tool looks at: by id or by city, then by name.\<close>

definition selectStores ::
  "(string \<Rightarrow> string) \<Rightarrow> (string \<Rightarrow> string \<Rightarrow> int) \<Rightarrow> getStoreHoursInput \<Rightarrow> store list
     \<Rightarrow> store list" where
  "selectStores toLowerCase lc input coll =
     (let found = (if truthy (hoursStoreId input)
                   then (case getStore coll (orEmpty (hoursStoreId input)) of
                           None \<Rightarrow> []
                         | Some s \<Rightarrow> [s])
                   else listStores toLowerCase lc (hoursCity input) 200 coll)
      in if truthy (hoursStoreName input)
         then filter (\<lambda>s. includesStr (toLowerCase (outletName s))
                              (toLowerCase (orEmpty (hoursStoreName input)))) found
         else found)"

text \<open>
  The call of \<^verbatim>\<open>syncStores\<close>: it throws, or it returns, with success or without, and
  leaves the collection as given.
\<close>

datatype refreshOutcome = RefreshThrew string | RefreshReturned "store list"

definition storesAfterRefresh ::
  "(string \<Rightarrow> string) \<Rightarrow> (string \<Rightarrow> string \<Rightarrow> int) \<Rightarrow> getStoreHoursInput \<Rightarrow> store list
     \<Rightarrow> refreshOutcome \<Rightarrow> jsDate \<Rightarrow> store list \<times> bool \<times> string option" where
  "storesAfterRefresh toLowerCase lc input coll refresh today =
     (let found = selectStores toLowerCase lc input coll;
          hasStaleData = (found \<noteq> [] \<and> list_ex (\<lambda>s. isStoreDataStale s today) found)
      in if hasStaleData
         then (case refresh of
                 RefreshReturned coll' \<Rightarrow> (selectStores toLowerCase lc input coll', True, None)
               | RefreshThrew errorMessage \<Rightarrow>
                   (found, False,
                    Some (''Failed to refresh store data: '' @ errorMessage
                            @ ''. Opening hours may be outdated.'')))
         else (found, False, None))"

definition toStoreHours :: "jsDate \<Rightarrow> store \<Rightarrow> storeHours" where
  "toStoreHours today s =
     (let storeIsStale = isStoreDataStale s today
      in \<lparr>entryId = outletId s,
          entryName = outletName s,
          entryCity = outletCity s,
          entryAddress = address s @ '', '' @ postalCode s,
          entryOpeningHoursToday = (if storeIsStale then None else openingHoursToday s),
          entryOpeningHoursTomorrow = (if storeIsStale then None else openingHoursTomorrow s),
          isOpenNow = (if storeIsStale then False
                       else isStoreOpenNow (openingHoursToday s) (getHours today))\<rparr>)"

definition getStoreHours ::
  "(string \<Rightarrow> string) \<Rightarrow> (string \<Rightarrow> string \<Rightarrow> int) \<Rightarrow> getStoreHoursInput \<Rightarrow> store list
     \<Rightarrow> refreshOutcome \<Rightarrow> jsDate \<Rightarrow> storeHoursAnswer" where
  "getStoreHours toLowerCase lc input coll refresh today =
     (case storesAfterRefresh toLowerCase lc input coll refresh today of
        (found, wasRefreshed, err) \<Rightarrow>
          let results = map (toStoreHours today) found;
              results' = (if openNow input = Some True then filter isOpenNow results else results)
          in \<lparr>answerStores = slice 0 (hoursLimit input) results',
              refreshed = wasRefreshed,
              refreshError = err\<rparr>)"

subsection \<open>Example: hours captured yesterday\<close>

definition arkadia :: store where
  "arkadia = \<lparr>outletId = ''2102'', outletName = ''Alko Helsinki Arkadia'', outletCity = ''HELSINKI'',
     address = ''Salomonkatu 1'', postalCode = ''00100'',
     openingHoursToday = Some ''9-21'', openingHoursTomorrow = Some ''9-18'',
     outletUpdatedAt = Some \<lparr>getFullYear = 2026, getMonth = 10, getDate = 2, getHours = 8\<rparr>\<rparr>"

definition noonNextDay :: jsDate where
  "noonNextDay = \<lparr>getFullYear = 2026, getMonth = 10, getDate = 3, getHours = 12\<rparr>"

definition arkadiaHours :: getStoreHoursInput where
  "arkadiaHours = \<lparr>hoursStoreId = Some ''2102'', hoursStoreName = None, hoursCity = None,
     openNow = None, hoursLimit = 20\<rparr>"

chapter \<open>The Alko catalog server: verification\<close>

section \<open>Strings\<close>

lemma includesStr_iff_sublist: "includesStr hay needle \<longleftrightarrow> sublist needle hay"
  by (induction hay) (auto simp: sublist_Cons_right)

lemma includesStr_refl: "includesStr s s"
  by (simp add: includesStr_iff_sublist)

lemma asciiLowerChar_idem: "asciiLowerChar (asciiLowerChar c) = asciiLowerChar c"
  by (simp add: asciiLowerChar_def upperAZ_def lowerAZ_def)

lemma asciiLowerCase_idem: "asciiLowerCase (asciiLowerCase s) = asciiLowerCase s"
  by (simp add: asciiLowerCase_def asciiLowerChar_idem)

lemma asciiLowerCase_prefix: "prefix (asciiLowerCase a) (asciiLowerCase (a @ b))"
  by (simp add: asciiLowerCase_def)

lemma splitWS_sublist: "w \<in> set (splitWS cur s) \<Longrightarrow> sublist w (cur @ s)"
proof (induction cur s rule: splitWS.induct)
  case (1 cur)
  then show ?case by simp
next
  case (2 cur c cs)
  show ?case
  proof (cases "isSpace c")
    case True
    with 2 have "w = cur \<or> w \<in> set (splitWS [] (dropWhile isSpace cs))" by simp
    then show ?thesis
    proof
      assume "w = cur"
      then show ?thesis by simp
    next
      assume "w \<in> set (splitWS [] (dropWhile isSpace cs))"
      with 2 True have "sublist w (dropWhile isSpace cs)" by simp
      moreover have "suffix (dropWhile isSpace cs) (cur @ c # cs)"
        by (metis suffix_dropWhile suffix_Cons suffix_appendI)
      ultimately show ?thesis
        using sublist_order.order_trans suffix_imp_sublist by blast
    qed
  next
    case False
    with 2 show ?thesis by simp
  qed
qed

lemma queryWordsOf_sublist: "w \<in> set (queryWordsOf q) \<Longrightarrow> sublist w q"
  using splitWS_sublist [of w "[]" q] by (simp add: queryWordsOf_def)

lemma compareChars_total: "compareChars a b \<le> 0 \<or> compareChars b a \<le> 0"
  by (induction a b rule: compareChars.induct) auto

lemma compareChars_trans:
  "compareChars a b \<le> 0 \<Longrightarrow> compareChars b c \<le> 0 \<Longrightarrow> compareChars a c \<le> 0"
proof (induction a b arbitrary: c rule: compareChars.induct)
  case 1
  then show ?case by simp
next
  case (2 b bs)
  then show ?case by (cases c) auto
next
  case (3 a as)
  then show ?case by simp
next
  case (4 a as b bs)
  show ?case
  proof (cases c)
    case Nil
    with 4 show ?thesis by simp
  next
    case (Cons d ds)
    with "4.prems" "4.IH" [of ds] show ?thesis
      by (auto split: if_splits)
  qed
qed


section \<open>Relevance scores\<close>

lemma phrase_imp_words:
  "includesStr f q \<Longrightarrow> list_all (includesStr f) (queryWordsOf q)"
  unfolding list_all_iff includesStr_iff_sublist
  using queryWordsOf_sublist sublist_order.order_trans by blast

lemma scoreOtherFields_range: "scoreOtherFields q ws fs \<in> {20, 30, 40}"
  by (induction fs) auto

lemma scoreOtherFields_40:
  "scoreOtherFields q ws fs = 40 \<Longrightarrow> list_ex (\<lambda>fld. includesStr fld q) fs"
  by (induction fs) (auto split: if_splits)

lemma scoreOtherFields_20:
  "scoreOtherFields q (queryWordsOf q) fs = 20
     \<longleftrightarrow> \<not> list_ex (\<lambda>fld. list_all (includesStr fld) (queryWordsOf q)) fs"
  by (induction fs) (auto simp: phrase_imp_words)

lemma scores_differ_only_30_40:
  assumes "calculateRelevanceScore toLowerCase p q (queryWordsOf q)
             \<noteq> priorityScore toLowerCase p q (queryWordsOf q)"
  shows "calculateRelevanceScore toLowerCase p q (queryWordsOf q) = 30
           \<and> priorityScore toLowerCase p q (queryWordsOf q) = 40"
proof -
  let ?ws = "queryWordsOf q"
  let ?fs = "otherFields toLowerCase p"
  let ?c = "scoreOtherFields q ?ws ?fs"
  have r: "?c = 20 \<or> ?c = 30 \<or> ?c = 40"
    using scoreOtherFields_range [of q ?ws ?fs] by auto
  have e: "list_ex (\<lambda>fld. includesStr fld q) ?fs
      \<Longrightarrow> list_ex (\<lambda>fld. list_all (includesStr fld) ?ws) ?fs"
    unfolding list_ex_iff using phrase_imp_words by blast
  show ?thesis
    using assms r e scoreOtherFields_40 [of q ?ws ?fs]
      scoreOtherFields_20 [of q ?fs]
    by (auto simp: calculateRelevanceScore_def priorityScore_def Let_def split: if_splits)
qed

lemma score_100_iff:
  "calculateRelevanceScore toLowerCase p q ws = 100 \<longleftrightarrow> includesStr (toLowerCase (name p)) q"
  using scoreOtherFields_range [of q ws "otherFields toLowerCase p"]
  by (auto simp: calculateRelevanceScore_def Let_def)

lemma calculateRelevanceScore_le: "calculateRelevanceScore toLowerCase p q ws \<le> 100"
  using scoreOtherFields_range [of q ws "otherFields toLowerCase p"]
  by (auto simp: calculateRelevanceScore_def Let_def)


text \<open>
  C1. The claim: for every catalog item and every non-empty query the score is decided by
  the first matching rule of the priority list 100 (phrase in name), 80 (all words in name),
  60 (phrase in producer), 50 (all words in producer), 40 (phrase in some other single
  field), 30 (all words in some other single field), 20 (otherwise). The code walks the
  other fields one by one and asks both questions of each field before it looks at the
  next, so an earlier field that holds all the words without the phrase ends the search
  with 30 although a later field holds the phrase. For the query "cabernet sauvignon" the
  item \<^const>\<open>bordeauxBlend\<close> has the two words, apart, in its description and the
  phrase in its grapes: the code answers 30, the priority list 40. All strings of the
  example are ASCII. By \<open>scores_differ_only_30_40\<close> this is the only way in which the two
  can differ, whatever the case fold.
\<close>

theorem calculateRelevanceScore_earlier_words_hide_later_phrase:
  "calculateRelevanceScore asciiLowerCase bordeauxBlend ''cabernet sauvignon''
       (queryWordsOf ''cabernet sauvignon'') = 30
     \<and> priorityScore asciiLowerCase bordeauxBlend ''cabernet sauvignon''
         (queryWordsOf ''cabernet sauvignon'') = 40"
  by code_simp

subsection \<open>The stable sort\<close>

lemma set_insertBy: "set (insertBy cmp x ys) = insert x (set ys)"
  by (induction ys) auto

lemma set_arraySort: "set (arraySort cmp xs) = set xs"
  by (induction xs) (auto simp: arraySort_def set_insertBy)

lemma length_insertBy: "length (insertBy cmp x ys) = Suc (length ys)"
  by (induction ys) auto

lemma length_arraySort: "length (arraySort cmp xs) = length xs"
  by (induction xs) (auto simp: arraySort_def length_insertBy)

text \<open>
  The sort puts its input in the order of the comparator when the comparator is a total
  preorder: transitive, and any two elements comparable.
\<close>

lemma sorted_insertBy:
  assumes tr: "\<And>a b c. cmp a b \<le> 0 \<Longrightarrow> cmp b c \<le> 0 \<Longrightarrow> cmp a c \<le> 0"
    and tot: "\<And>a b. cmp a b \<le> 0 \<or> cmp b a \<le> 0"
  shows "sorted_wrt (\<lambda>a b. cmp a b \<le> 0) ys
     \<Longrightarrow> sorted_wrt (\<lambda>a b. cmp a b \<le> 0) (insertBy cmp x ys)"
proof (induction ys)
  case Nil
  then show ?case by simp
next
  case (Cons y ys)
  show ?case
  proof (cases "cmp x y \<le> 0")
    case True
    have "cmp x z \<le> 0" if "z \<in> set ys" for z
      using Cons.prems that tr [OF True, of z] by simp
    with Cons.prems True show ?thesis by simp
  next
    case False
    with tot [of x y] have "cmp y x \<le> 0" by simp
    with Cons False show ?thesis by (auto simp: set_insertBy)
  qed
qed

lemma sorted_arraySort:
  assumes tr: "\<And>a b c. cmp a b \<le> 0 \<Longrightarrow> cmp b c \<le> 0 \<Longrightarrow> cmp a c \<le> 0"
    and tot: "\<And>a b. cmp a b \<le> 0 \<or> cmp b a \<le> 0"
  shows "sorted_wrt (\<lambda>a b. cmp a b \<le> 0) (arraySort cmp xs)"
proof (induction xs)
  case Nil
  then show ?case by (simp add: arraySort_def)
next
  case (Cons x xs)
  have "arraySort cmp (x # xs) = insertBy cmp x (arraySort cmp xs)"
    by (simp add: arraySort_def)
  with Cons sorted_insertBy [of cmp, OF tr tot] show ?case by simp
qed

lemma relevanceCompare_le_iff:
  "relevanceCompare lc a b \<le> 0
     \<longleftrightarrow> snd b < snd a \<or> (snd a = snd b \<and> lc (name (fst a)) (name (fst b)) \<le> 0)"
  by (auto simp: relevanceCompare_def)

lemma relevanceCompare_trans:
  assumes "\<forall>a b c. lc a b \<le> 0 \<longrightarrow> lc b c \<le> 0 \<longrightarrow> lc a c \<le> 0"
    and "relevanceCompare lc a b \<le> 0" and "relevanceCompare lc b c \<le> 0"
  shows "relevanceCompare lc a c \<le> 0"
  using assms unfolding relevanceCompare_le_iff by (metis order_less_trans)

lemma relevanceCompare_total:
  assumes "\<forall>a b. lc a b \<le> 0 \<or> lc b a \<le> 0"
  shows "relevanceCompare lc a b \<le> 0 \<or> relevanceCompare lc b a \<le> 0"
  using assms unfolding relevanceCompare_le_iff by (metis not_less_iff_gr_or_eq)


section \<open>Ranking of a query that is an item's own name\<close>

lemma joinWith_Cons:
  "joinWith sep (x # ys) = x \<or> (\<exists>t. joinWith sep (x # ys) = x @ sep @ t)"
  by (cases ys) auto

lemma searchableText_name:
  assumes pref: "\<forall>a b. prefix (toLowerCase a) (toLowerCase (a @ '' '' @ b))"
    and n: "name p \<noteq> []"
  shows "prefix (toLowerCase (name p)) (searchableText toLowerCase p)"
proof -
  let ?rest = "filterBoolean [Some (producer p), Some (country p), region p,
              Some (type p), subtype p, description p, grapes p]"
  have s: "searchableText toLowerCase p = toLowerCase (joinWith '' '' (name p # ?rest))"
    using n by (simp add: searchableText_def)
  from joinWith_Cons [of "'' ''" "name p" ?rest] show ?thesis
  proof
    assume "joinWith '' '' (name p # ?rest) = name p"
    with s show ?thesis by simp
  next
    assume "\<exists>t. joinWith '' '' (name p # ?rest) = name p @ '' '' @ t"
    then obtain t where "joinWith '' '' (name p # ?rest) = name p @ '' '' @ t" ..
    with s pref show ?thesis by simp
  qed
qed

lemma own_name_matches:
  assumes "\<forall>a b. prefix (toLowerCase a) (toLowerCase (a @ '' '' @ b))"
    and "name p \<noteq> []"
  shows "matchesAllWords toLowerCase (queryWordsOf (toLowerCase (name p))) p"
proof -
  have "sublist (toLowerCase (name p)) (searchableText toLowerCase p)"
    using searchableText_name [OF assms] by (rule prefix_imp_sublist)
  then show ?thesis
    unfolding matchesAllWords_def list_all_iff includesStr_iff_sublist
    using queryWordsOf_sublist sublist_order.order_trans by blast
qed

lemma own_name_score:
  "calculateRelevanceScore toLowerCase p (toLowerCase (name p)) ws = 100"
  by (simp add: calculateRelevanceScore_def includesStr_refl)

lemma scored_snd:
  "a \<in> set (scored toLowerCase qry ps)
     \<Longrightarrow> snd a = calculateRelevanceScore toLowerCase (fst a) (toLowerCase qry)
                   (queryWordsOf (toLowerCase qry))"
  by (auto simp: scored_def Let_def)

lemma set_textSearch:
  "set (textSearch toLowerCase lc qry ps)
     = {p \<in> set ps. matchesAllWords toLowerCase (queryWordsOf (toLowerCase qry)) p}"
  by (force simp: textSearch_def set_arraySort scored_def Let_def)

lemma length_textSearch:
  "length (textSearch toLowerCase lc qry ps)
     = length (filter (matchesAllWords toLowerCase (queryWordsOf (toLowerCase qry))) ps)"
  by (simp add: textSearch_def length_arraySort scored_def Let_def)

text \<open>
  The ranked list is in the order of the score, highest first, and among equal scores in
  the order of the names, when the comparison of names is a total preorder.
\<close>

lemma sorted_textSearch:
  assumes tr: "\<forall>a b c. lc a b \<le> 0 \<longrightarrow> lc b c \<le> 0 \<longrightarrow> lc a c \<le> 0"
    and tot: "\<forall>a b. lc a b \<le> 0 \<or> lc b a \<le> 0"
    and sc: "score = (\<lambda>x. calculateRelevanceScore toLowerCase x (toLowerCase qry)
                           (queryWordsOf (toLowerCase qry)))"
  shows "sorted_wrt (\<lambda>a b. score b < score a \<or> (score a = score b \<and> lc (name a) (name b) \<le> 0))
           (textSearch toLowerCase lc qry ps)"
proof -
  let ?xs = "arraySort (relevanceCompare lc) (scored toLowerCase qry ps)"
  have s: "sorted_wrt (\<lambda>a b. relevanceCompare lc a b \<le> 0) ?xs"
  proof (rule sorted_arraySort)
    show "relevanceCompare lc a c \<le> 0"
      if "relevanceCompare lc a b \<le> 0" and "relevanceCompare lc b c \<le> 0" for a b c
      using relevanceCompare_trans [OF tr that] .
    show "relevanceCompare lc a b \<le> 0 \<or> relevanceCompare lc b a \<le> 0" for a b
      using relevanceCompare_total [OF tot] .
  qed
  have e: "snd a = score (fst a)" if "a \<in> set ?xs" for a
    using that scored_snd [of a toLowerCase qry ps] by (simp add: set_arraySort sc)
  have "sorted_wrt (\<lambda>a b. score (fst b) < score (fst a)
           \<or> (score (fst a) = score (fst b) \<and> lc (name (fst a)) (name (fst b)) \<le> 0)) ?xs"
  proof (rule sorted_wrt_mono_rel [OF _ s])
    fix a b
    assume "a \<in> set ?xs" "b \<in> set ?xs" "relevanceCompare lc a b \<le> 0"
    then show "score (fst b) < score (fst a)
           \<or> (score (fst a) = score (fst b) \<and> lc (name (fst a)) (name (fst b)) \<le> 0)"
      using e [of a] e [of b] by (simp add: relevanceCompare_le_iff)
  qed
  then show ?thesis by (simp add: textSearch_def sorted_wrt_map)
qed

text \<open>With a text query, what is left after the filters is the ranked list, filtered.\<close>

lemma postFilter_text:
  assumes "query filters = Some q" and "q \<noteq> []"
  shows "postFilter toLowerCase lc filters snapshot
     = filter (\<lambda>x. (\<forall>m. minSmokiness filters = Some m \<longrightarrow> atLeastSmokiness m x)
                  \<and> (\<forall>m. maxSmokiness filters = Some m \<longrightarrow> atMostSmokiness m x))
         (textSearch toLowerCase lc q snapshot)"
  using assms
  by (cases "minSmokiness filters"; cases "maxSmokiness filters")
     (simp_all add: postFilter_def Let_def)

lemma postFilter_plain:
  assumes "\<not> hasQuery (query filters)"
    and "minSmokiness filters = None" and "maxSmokiness filters = None"
  shows "postFilter toLowerCase lc filters snapshot = snapshot"
  using assms by (cases "query filters") (simp_all add: postFilter_def Let_def)

lemma set_postFilter: "x \<in> set (postFilter toLowerCase lc filters snapshot) \<Longrightarrow> x \<in> set snapshot"
  by (cases "query filters"; cases "minSmokiness filters"; cases "maxSmokiness filters")
     (auto simp: postFilter_def Let_def set_textSearch split: if_splits)

text \<open>What \<^const>\<open>searchProducts\<close> returns, in terms of the documents that it fetched.\<close>

lemma searchProducts_pages_the_fetched:
  assumes r: "r = searchProducts orderBy toLowerCase lc filters options collection"
    and sb: "sb = (case sortBy options of None \<Rightarrow> ByName | Some f \<Rightarrow> f)"
    and so: "so = (case sortOrder options of None \<Rightarrow> Asc | Some d \<Rightarrow> d)"
    and lmt: "lmt = (case limit options of None \<Rightarrow> 20 | Some l \<Rightarrow> l)"
    and off: "off = (case offset options of None \<Rightarrow> 0 | Some k \<Rightarrow> k)"
    and ps: "ps = postFilter toLowerCase lc filters
                    (storeQuery orderBy filters sb so (fetchLimit filters lmt) collection)"
  shows "products r = slice off (off + lmt) ps"
    and "total r = length ps"
    and "hasMore r \<longleftrightarrow> total r > off + lmt"
    and "length (products r) = min lmt (length ps - off)"
  using assms by (simp_all add: searchProducts_def Let_def slice_def)

lemma storeQuery_all:
  assumes "length (orderBy sb so (filter (satisfiesWhere filters) collection)) \<le> n"
  shows "storeQuery orderBy filters sb so n collection
           = orderBy sb so (filter (satisfiesWhere filters) collection)"
  using assms by (simp add: storeQuery_def)


text \<open>
  C2, as amended. Let the case fold be idempotent and fold the text before a space on its
  own, let the comparison of names be a total preorder, and let the store answer the query
  with all the documents that satisfy its \<^verbatim>\<open>where\<close> clauses, 15000 at most. For every
  item \<open>p\<close> of the collection that has a name and passes the filters of the search, the
  text search for the case-folded name gives \<open>p\<close> the score 100, the highest score there
  is, and has \<open>p\<close> in the ranked list, of which the returned page is the slice. The ranked
  list is in the order of the score, descending, then of the name, ascending. Every item
  that it puts before \<open>p\<close> has the score 100 as well, that is, its name contains the query
  as a phrase too, and its name is not after the name of \<open>p\<close>. So \<open>p\<close> is the first
  when the name of every other item of the list with score 100 is after its own.
\<close>

theorem own_name_query_ranks_with_top_score:
  assumes idem: "\<forall>s. toLowerCase (toLowerCase s) = toLowerCase s"
    and pref: "\<forall>a b. prefix (toLowerCase a) (toLowerCase (a @ '' '' @ b))"
    and lc_trans: "\<forall>a b c. lc a b \<le> 0 \<longrightarrow> lc b c \<le> 0 \<longrightarrow> lc a c \<le> 0"
    and lc_total: "\<forall>a b. lc a b \<le> 0 \<or> lc b a \<le> 0"
    and sb: "sb = (case sortBy options of None \<Rightarrow> ByName | Some f \<Rightarrow> f)"
    and so: "so = (case sortOrder options of None \<Rightarrow> Asc | Some d \<Rightarrow> d)"
    and lmt: "lmt = (case limit options of None \<Rightarrow> 20 | Some l \<Rightarrow> l)"
    and off: "off = (case offset options of None \<Rightarrow> 0 | Some k \<Rightarrow> k)"
    and matching: "matching = filter (satisfiesWhere filters) collection"
    and scan: "set (orderBy sb so matching) = set matching"
    and fits: "length (orderBy sb so matching) \<le> 15000"
    and p: "p \<in> set collection" "satisfiesWhere filters p" "name p \<noteq> []"
    and smin: "\<forall>m. minSmokiness filters = Some m \<longrightarrow> atLeastSmokiness m p"
    and smax: "\<forall>m. maxSmokiness filters = Some m \<longrightarrow> atMostSmokiness m p"
    and q: "query filters = Some q" "q = toLowerCase (name p)" "q \<noteq> []"
    and score: "score = (\<lambda>x. calculateRelevanceScore toLowerCase x (toLowerCase q)
                              (queryWordsOf (toLowerCase q)))"
    and ranked: "ranked = postFilter toLowerCase lc filters (orderBy sb so matching)"
    and r: "r = searchProducts orderBy toLowerCase lc filters options collection"
  shows "score p = 100 \<and> (\<forall>x. score x \<le> 100)
    \<and> total r = length ranked \<and> products r = slice off (off + lmt) ranked
    \<and> p \<in> set ranked
    \<and> sorted_wrt (\<lambda>a b. score b < score a \<or> (score a = score b \<and> lc (name a) (name b) \<le> 0))
         ranked
    \<and> (\<forall>pre suf x. ranked = pre @ p # suf \<longrightarrow> x \<in> set pre
          \<longrightarrow> score x = 100 \<and> includesStr (toLowerCase (name x)) (toLowerCase q)
              \<and> lc (name x) (name p) \<le> 0)
    \<and> ((\<forall>x \<in> set ranked. x \<noteq> p \<and> score x = 100 \<longrightarrow> 0 < lc (name x) (name p))
          \<longrightarrow> hd ranked = p)"
proof -
  let ?answer = "orderBy sb so matching"
  let ?R = "\<lambda>a b. score b < score a \<or> (score a = score b \<and> lc (name a) (name b) \<le> 0)"
  have ql: "toLowerCase q = toLowerCase (name p)"
    using q(2) idem by simp
  have s100: "score p = 100"
    unfolding score ql by (rule own_name_score)
  have le: "\<forall>x. score x \<le> 100"
    unfolding score by (simp add: calculateRelevanceScore_le)
  have hq: "hasQuery (query filters)"
    using q by simp
  have fetched: "storeQuery orderBy filters sb so (fetchLimit filters lmt) collection = ?answer"
    using fits hq unfolding matching by (simp add: fetchLimit_def storeQuery_def)
  have page: "products r = slice off (off + lmt) ranked" and tot: "total r = length ranked"
    using searchProducts_pages_the_fetched(1,2) [OF r sb so lmt off refl]
    unfolding fetched ranked by simp_all
  have rk: "ranked
     = filter (\<lambda>x. (\<forall>m. minSmokiness filters = Some m \<longrightarrow> atLeastSmokiness m x)
                  \<and> (\<forall>m. maxSmokiness filters = Some m \<longrightarrow> atMostSmokiness m x))
         (textSearch toLowerCase lc q ?answer)"
    unfolding ranked using q(1) q(3) by (rule postFilter_text)
  have "p \<in> set ?answer"
    using scan p(1) p(2) unfolding matching by simp
  moreover have "matchesAllWords toLowerCase (queryWordsOf (toLowerCase q)) p"
    unfolding ql using pref p(3) by (rule own_name_matches)
  ultimately have "p \<in> set (textSearch toLowerCase lc q ?answer)"
    by (simp add: set_textSearch)
  with smin smax have mem: "p \<in> set ranked"
    unfolding rk by simp
  have "sorted_wrt ?R (textSearch toLowerCase lc q ?answer)"
    using lc_trans lc_total score by (rule sorted_textSearch)
  then have sorted: "sorted_wrt ?R ranked"
    unfolding rk by (rule sorted_wrt_filter)
  have before: "score x = 100 \<and> includesStr (toLowerCase (name x)) (toLowerCase q)
              \<and> lc (name x) (name p) \<le> 0"
    if d: "ranked = pre @ p # suf" and x: "x \<in> set pre" for pre suf x
  proof -
    from sorted x have "?R x p"
      unfolding d by (simp add: sorted_wrt_append)
    with s100 le have a: "score x = 100" and b: "lc (name x) (name p) \<le> 0"
      by (auto simp: not_less [symmetric])
    from a have "includesStr (toLowerCase (name x)) (toLowerCase q)"
      unfolding score by (simp add: score_100_iff)
    with a b show ?thesis by simp
  qed
  have first: "hd ranked = p"
    if h: "\<forall>x \<in> set ranked. x \<noteq> p \<and> score x = 100 \<longrightarrow> 0 < lc (name x) (name p)"
  proof -
    from mem obtain pre suf where d: "ranked = pre @ p # suf" and n: "p \<notin> set pre"
      using split_list_first [of p ranked] by blast
    have "pre = []"
    proof (rule ccontr)
      assume "pre \<noteq> []"
      then obtain x where x: "x \<in> set pre" by (cases pre) auto
      with n have "x \<noteq> p" by auto
      moreover from x have "x \<in> set ranked" unfolding d by simp
      moreover from before [OF d x] have "score x = 100" and "lc (name x) (name p) \<le> 0"
        by simp_all
      ultimately show False using h by fastforce
    qed
    with d show ?thesis by simp
  qed
  have before': "\<forall>pre suf x. ranked = pre @ p # suf \<longrightarrow> x \<in> set pre
          \<longrightarrow> score x = 100 \<and> includesStr (toLowerCase (name x)) (toLowerCase q)
              \<and> lc (name x) (name p) \<le> 0"
    using before by blast
  have first': "(\<forall>x \<in> set ranked. x \<noteq> p \<and> score x = 100 \<longrightarrow> 0 < lc (name x) (name p))
          \<longrightarrow> hd ranked = p"
    using first by blast
  show ?thesis
    using s100 le tot page mem sorted before' first' by - (intro conjI; assumption)
qed


lemma satisfiesWhere_viinaQuery: "satisfiesWhere viinaQuery x"
  by (simp add: satisfiesWhere_def viinaQuery_def noFilters_def)

theorem own_name_witness:
  "viina \<in> set [viinaZzz, viina] \<and> name viina \<noteq> []
     \<and> query viinaQuery = Some (asciiLowerCase (name viina))
     \<and> calculateRelevanceScore asciiLowerCase viina (asciiLowerCase (asciiLowerCase (name viina)))
          (queryWordsOf (asciiLowerCase (asciiLowerCase (name viina)))) = 100
     \<and> viina \<in> set (postFilter asciiLowerCase compareChars viinaQuery
                       (collectionOrder ByName Asc [viinaZzz, viina]))
     \<and> hd (postFilter asciiLowerCase compareChars viinaQuery
             (collectionOrder ByName Asc [viinaZzz, viina])) = viina"
proof -
  let ?coll = "[viinaZzz, viina]"
  let ?q = "asciiLowerCase (name viina)"
  let ?score = "\<lambda>x. calculateRelevanceScore asciiLowerCase x (asciiLowerCase ?q)
                       (queryWordsOf (asciiLowerCase ?q))"
  let ?ranked = "postFilter asciiLowerCase compareChars viinaQuery (collectionOrder ByName Asc ?coll)"
  have idem: "\<forall>s. asciiLowerCase (asciiLowerCase s) = asciiLowerCase s"
    by (simp add: asciiLowerCase_idem)
  have pref: "\<forall>a b. prefix (asciiLowerCase a) (asciiLowerCase (a @ '' '' @ b))"
    by (simp add: asciiLowerCase_prefix)
  have tr: "\<forall>a b c. compareChars a b \<le> 0 \<longrightarrow> compareChars b c \<le> 0 \<longrightarrow> compareChars a c \<le> 0"
    using compareChars_trans by blast
  have tot: "\<forall>a b. compareChars a b \<le> 0 \<or> compareChars b a \<le> 0"
    using compareChars_total by blast
  have sb: "ByName = (case sortBy (page 20 0) of None \<Rightarrow> ByName | Some f \<Rightarrow> f)"
    and so: "Asc = (case sortOrder (page 20 0) of None \<Rightarrow> Asc | Some d \<Rightarrow> d)"
    and lmt: "(20::nat) = (case limit (page 20 0) of None \<Rightarrow> 20 | Some l \<Rightarrow> l)"
    and off: "(0::nat) = (case offset (page 20 0) of None \<Rightarrow> 0 | Some k \<Rightarrow> k)"
    by (simp_all add: page_def)
  have matching: "?coll = filter (satisfiesWhere viinaQuery) ?coll"
    by (simp add: satisfiesWhere_viinaQuery)
  have scan: "set (collectionOrder ByName Asc ?coll) = set ?coll"
    and fits: "length (collectionOrder ByName Asc ?coll) \<le> 15000"
    by (simp_all add: collectionOrder_def)
  have p1: "viina \<in> set ?coll" by simp
  have p3: "name viina \<noteq> []" by (simp add: viina_def)
  have smin: "\<forall>m. minSmokiness viinaQuery = Some m \<longrightarrow> atLeastSmokiness m viina"
    and smax: "\<forall>m. maxSmokiness viinaQuery = Some m \<longrightarrow> atMostSmokiness m viina"
    by (simp_all add: viinaQuery_def noFilters_def)
  have q1: "query viinaQuery = Some ?q" by code_simp
  have q3: "?q \<noteq> []" by code_simp
  have rk: "?ranked = [viina, viinaZzz]" by code_simp
  have later: "0 < compareChars (name viinaZzz) (name viina)" by code_simp
  have others: "\<forall>x \<in> set ?ranked. x \<noteq> viina \<and> ?score x = 100
                  \<longrightarrow> 0 < compareChars (name x) (name viina)"
    unfolding rk using later by simp
  have "?score viina = 100 \<and> viina \<in> set ?ranked \<and> hd ?ranked = viina"
    using own_name_query_ranks_with_top_score [where toLowerCase = asciiLowerCase
        and lc = compareChars and orderBy = collectionOrder and options = "page 20 0"
        and filters = viinaQuery and collection = ?coll and p = viina,
        OF idem pref tr tot sb so lmt off matching scan fits p1 satisfiesWhere_viinaQuery p3
          smin smax q1 refl q3 refl refl refl] others
    by blast
  with p1 p3 q1 show ?thesis by simp
qed


text \<open>
  C2, as claimed, fails: the query "viina" is the case-folded name of \<^const>\<open>viina\<close>, and
  "Koskenkorva Viina" contains it too, scores 100 and comes first by name.
\<close>

theorem own_name_query_not_first_counterexample:
  "viina \<in> set [viina, koskenkorvaViina] \<and> name viina \<noteq> []
     \<and> products (searchProducts collectionOrder asciiLowerCase compareChars
          (noFilters\<lparr>query := Some (asciiLowerCase (name viina))\<rparr>) (page 20 0)
          [viina, koskenkorvaViina])
         = [koskenkorvaViina, viina]
     \<and> name koskenkorvaViina \<noteq> name viina"
  by code_simp

text \<open>
  The bound of 15000 documents is needed: the text search looks at the first 15000
  documents of the store's answer and no further. In a catalog of 15001 items that answers
  in the order of the names, the last item is not looked at, although the query is its
  name.
\<close>

lemma own_name_beyond_fetch_limit:
  "viina \<in> set largeCatalog
     \<and> viina \<notin> set (postFilter asciiLowerCase compareChars viinaQuery
                       (storeQuery collectionOrder viinaQuery ByName Asc
                          (fetchLimit viinaQuery 20) largeCatalog))"
proof -
  let ?front = "map (\<lambda>i. koskenkorvaViina\<lparr>id := ''1'' @ decimalDigits 5 i\<rparr>) [0..<15000]"
  have "fetchLimit viinaQuery 20 = 15000"
    by (simp add: fetchLimit_def viinaQuery_def)
  then have "storeQuery collectionOrder viinaQuery ByName Asc (fetchLimit viinaQuery 20) largeCatalog
          = take 15000 largeCatalog"
    by (simp add: storeQuery_def collectionOrder_def satisfiesWhere_viinaQuery)
  also have "\<dots> = ?front"
    by (simp add: largeCatalog_def)
  finally have f: "storeQuery collectionOrder viinaQuery ByName Asc (fetchLimit viinaQuery 20)
      largeCatalog = ?front" .
  have "name x = ''Koskenkorva Viina''" if "x \<in> set ?front" for x
    using that by (auto simp: koskenkorvaViina_def)
  moreover have "name viina = ''Viina''"
    by (simp add: viina_def)
  ultimately have "viina \<notin> set ?front"
    by fastforce
  then have "viina \<notin> set (postFilter asciiLowerCase compareChars viinaQuery ?front)"
    using set_postFilter by blast
  then show ?thesis
    unfolding f by (simp add: largeCatalog_def)
qed


section \<open>Pagination\<close>

text \<open>
  The page is the slice from \<open>offset\<close> to \<open>offset + limit\<close> of what is left of the fetched
  documents after the filters, and the total is the number of those
  (\<open>searchProducts_pages_the_fetched\<close>). With a text query the search fetches up to
  15000 documents; without one it fetches \<open>limit + 1\<close> documents, whatever the offset. So
  without a text query the total is never more than \<open>limit + 1\<close>, and the page is empty
  from the offset \<open>limit + 1\<close> on, however many documents match.
\<close>

lemma searchProducts_total_without_query:
  assumes r: "r = searchProducts orderBy toLowerCase lc filters options collection"
    and lmt: "lmt = (case limit options of None \<Rightarrow> 20 | Some l \<Rightarrow> l)"
    and off: "off = (case offset options of None \<Rightarrow> 0 | Some k \<Rightarrow> k)"
    and nq: "\<not> hasQuery (query filters)"
  shows "total r \<le> lmt + 1"
    and "lmt + 1 \<le> off \<Longrightarrow> products r = []"
    and "lmt + 1 \<le> off \<Longrightarrow> \<not> hasMore r"
proof -
  let ?sb = "case sortBy options of None \<Rightarrow> ByName | Some f \<Rightarrow> f"
  let ?so = "case sortOrder options of None \<Rightarrow> Asc | Some d \<Rightarrow> d"
  let ?snapshot = "storeQuery orderBy filters ?sb ?so (fetchLimit filters lmt) collection"
  let ?ps = "postFilter toLowerCase lc filters ?snapshot"
  have "length ?snapshot \<le> lmt + 1"
    using nq by (simp add: storeQuery_def fetchLimit_def)
  moreover have "length ?ps \<le> length ?snapshot"
    using nq
    by (cases "query filters"; cases "minSmokiness filters"; cases "maxSmokiness filters")
       (simp_all add: postFilter_def Let_def le_trans [OF length_filter_le length_filter_le])
  ultimately have l: "length ?ps \<le> lmt + 1" by simp
  have t: "total r = length ?ps" and p: "products r = slice off (off + lmt) ?ps"
    and h: "hasMore r \<longleftrightarrow> total r > off + lmt"
    using searchProducts_pages_the_fetched(1,2,3) [OF r refl refl lmt off refl] by simp_all
  from t l show "total r \<le> lmt + 1" by simp
  from p l show "products r = []" if "lmt + 1 \<le> off"
    using that by (simp add: slice_def)
  from h t l show "\<not> hasMore r" if "lmt + 1 \<le> off"
    using that by simp
qed

lemma searchProducts_total_with_query:
  assumes r: "r = searchProducts orderBy toLowerCase lc filters options collection"
    and sb: "sb = (case sortBy options of None \<Rightarrow> ByName | Some f \<Rightarrow> f)"
    and so: "so = (case sortOrder options of None \<Rightarrow> Asc | Some d \<Rightarrow> d)"
    and q: "hasQuery (query filters)"
    and fits: "length (orderBy sb so (filter (satisfiesWhere filters) collection)) \<le> 15000"
  shows "total r = length (postFilter toLowerCase lc filters
                             (orderBy sb so (filter (satisfiesWhere filters) collection)))"
  using assms by (simp add: searchProducts_def Let_def storeQuery_def fetchLimit_def)

lemma page_total:
  "total (searchProducts orderBy toLowerCase lc filters (page l k) collection)
     = length (postFilter toLowerCase lc filters
                 (storeQuery orderBy filters ByName Asc (fetchLimit filters l) collection))"
  by (simp add: searchProducts_def Let_def page_def)

lemma page_length:
  "length (products (searchProducts orderBy toLowerCase lc filters (page l k) collection))
     = min l (length (postFilter toLowerCase lc filters
                 (storeQuery orderBy filters ByName Asc (fetchLimit filters l) collection)) - k)"
  by (simp add: searchProducts_def Let_def page_def slice_def)

lemma page_hasMore:
  "hasMore (searchProducts orderBy toLowerCase lc filters (page l k) collection)
     \<longleftrightarrow> total (searchProducts orderBy toLowerCase lc filters (page l k) collection) > k + l"
  by (simp add: searchProducts_def Let_def page_def)

lemma length_viinaCatalog: "length viinaCatalog = 57"
  by (simp add: viinaCatalog_def)

lemma viinaCatalog_fromFinland: "filter (satisfiesWhere fromFinland) viinaCatalog = viinaCatalog"
  by (simp add: viinaCatalog_def filter_map o_def satisfiesWhere_def fromFinland_def
      noFilters_def viina_def)

lemma fetched_fromFinland:
  "postFilter toLowerCase lc fromFinland
     (storeQuery collectionOrder fromFinland sb so (fetchLimit fromFinland 20) viinaCatalog)
     = take 21 viinaCatalog"
proof -
  have "\<not> hasQuery (query fromFinland)" "minSmokiness fromFinland = None"
    "maxSmokiness fromFinland = None"
    by (simp_all add: fromFinland_def noFilters_def)
  then have "postFilter toLowerCase lc fromFinland snapshot = snapshot" for snapshot
    by (rule postFilter_plain)
  moreover have "fetchLimit fromFinland 20 = 21"
    by (simp add: fetchLimit_def fromFinland_def noFilters_def)
  ultimately show ?thesis
    by (simp add: storeQuery_def collectionOrder_def viinaCatalog_fromFinland)
qed

lemma matchesAllWords_id_update:
  "matchesAllWords toLowerCase ws (p\<lparr>id := i\<rparr>) = matchesAllWords toLowerCase ws p"
  by (simp add: matchesAllWords_def searchableText_def)

lemma viina_matches: "matchesAllWords asciiLowerCase (queryWordsOf (asciiLowerCase ''viina'')) viina"
  by code_simp

lemma fetched_viinaQuery:
  "length (postFilter asciiLowerCase lc viinaQuery
     (storeQuery collectionOrder viinaQuery sb so (fetchLimit viinaQuery 20) viinaCatalog)) = 57"
proof -
  have "fetchLimit viinaQuery 20 = 15000"
    by (simp add: fetchLimit_def viinaQuery_def)
  then have s: "storeQuery collectionOrder viinaQuery sb so (fetchLimit viinaQuery 20) viinaCatalog
      = viinaCatalog"
    by (simp add: storeQuery_def collectionOrder_def satisfiesWhere_viinaQuery
        length_viinaCatalog)
  have "query viinaQuery = Some ''viina''" "minSmokiness viinaQuery = None"
    "maxSmokiness viinaQuery = None"
    by (simp_all add: viinaQuery_def noFilters_def)
  then have "postFilter asciiLowerCase lc viinaQuery viinaCatalog
      = textSearch asciiLowerCase lc ''viina'' viinaCatalog"
    by (simp add: postFilter_def)
  then show ?thesis
    unfolding s
    by (simp add: length_textSearch viinaCatalog_def filter_map o_def matchesAllWords_id_update
        viina_matches)
qed

text \<open>
  C3. The claim: for every search the page is the slice from \<open>offset\<close> to
  \<open>offset + limit\<close> of the list of matches that is left after all filters, the total is
  the number of those matches, and \<open>hasMore\<close> holds exactly when the total exceeds
  \<open>offset + limit\<close>; with 57 matches and limit 20, offset 40 gives a page of 17 items and
  no more, offset 20 a page of 20 items and more. The 57 items of \<^const>\<open>viinaCatalog\<close>
  are all from Finland. The search for the items from Finland, without a text query and
  with limit 20, fetches 21 documents: at offset 40 it answers a total of 21, an empty
  page and no more, and at offset 20 a page of one item and no more. The text search for
  "viina" on the same catalog, which all 57 items match, does what the claim says.
\<close>

theorem searchProducts_without_query_pages_21_of_57:
  "length (filter (satisfiesWhere fromFinland) viinaCatalog) = 57
   \<and> total (searchProducts collectionOrder asciiLowerCase compareChars fromFinland (page 20 40)
        viinaCatalog) = 21
   \<and> products (searchProducts collectionOrder asciiLowerCase compareChars fromFinland (page 20 40)
        viinaCatalog) = []
   \<and> \<not> hasMore (searchProducts collectionOrder asciiLowerCase compareChars fromFinland
        (page 20 40) viinaCatalog)
   \<and> total (searchProducts collectionOrder asciiLowerCase compareChars fromFinland (page 20 20)
        viinaCatalog) = 21
   \<and> length (products (searchProducts collectionOrder asciiLowerCase compareChars fromFinland
        (page 20 20) viinaCatalog)) = 1
   \<and> \<not> hasMore (searchProducts collectionOrder asciiLowerCase compareChars fromFinland
        (page 20 20) viinaCatalog)
   \<and> total (searchProducts collectionOrder asciiLowerCase compareChars viinaQuery (page 20 40)
        viinaCatalog) = 57
   \<and> length (products (searchProducts collectionOrder asciiLowerCase compareChars viinaQuery
        (page 20 40) viinaCatalog)) = 17
   \<and> \<not> hasMore (searchProducts collectionOrder asciiLowerCase compareChars viinaQuery
        (page 20 40) viinaCatalog)
   \<and> length (products (searchProducts collectionOrder asciiLowerCase compareChars viinaQuery
        (page 20 20) viinaCatalog)) = 20
   \<and> hasMore (searchProducts collectionOrder asciiLowerCase compareChars viinaQuery
        (page 20 20) viinaCatalog)"
proof -
  let ?r = "\<lambda>filters off. searchProducts collectionOrder asciiLowerCase compareChars filters
                 (page 20 off) viinaCatalog"
  have n: "length (filter (satisfiesWhere fromFinland) viinaCatalog) = 57"
    by (simp add: viinaCatalog_fromFinland length_viinaCatalog)
  have t: "total (?r fromFinland off) = 21" for off
    by (simp add: page_total fetched_fromFinland length_viinaCatalog)
  have l: "length (products (?r fromFinland off)) = min 20 (21 - off)" for off
    by (simp add: page_length fetched_fromFinland length_viinaCatalog)
  have h: "hasMore (?r filters off) \<longleftrightarrow> total (?r filters off) > off + 20" for filters off
    by (rule page_hasMore)
  have t': "total (?r viinaQuery off) = 57" for off
    by (simp add: page_total fetched_viinaQuery)
  have l': "length (products (?r viinaQuery off)) = min 20 (57 - off)" for off
    by (simp add: page_length fetched_viinaQuery)
  have e: "products (?r fromFinland 40) = []"
    using l [of 40] by simp
  show ?thesis
    using n t [of 40] e h [of fromFinland 40] t [of 20] l [of 20] h [of fromFinland 20]
      t' [of 40] l' [of 40] h [of viinaQuery 40] l' [of 20] h [of viinaQuery 20] t' [of 20]
    by simp
qed

section \<open>Batch upsert\<close>

declare upsertChunks.simps [simp del]

lemma batchCommit_snoc: "batchCommit docs (ws @ [(k, v)]) = (batchCommit docs ws)(k \<mapsto> v)"
  by (simp add: batchCommit_def)

lemma batchCommit_notin: "k \<notin> fst ` set ws \<Longrightarrow> batchCommit docs ws k = docs k"
  by (induction ws rule: rev_induct) (auto simp: batchCommit_snoc, simp add: batchCommit_def)

lemma batchCommit_in:
  "k \<in> fst ` set ws \<Longrightarrow> \<exists>v. (k, v) \<in> set ws \<and> batchCommit docs ws k = Some v"
proof (induction ws rule: rev_induct)
  case Nil
  then show ?case by simp
next
  case (snoc x ws)
  obtain k' v' where x: "x = (k', v')" by (cases x)
  show ?case
  proof (cases "k = k'")
    case True
    then show ?thesis by (auto simp: x batchCommit_snoc)
  next
    case False
    with snoc x show ?thesis by (auto simp: batchCommit_snoc)
  qed
qed

lemma upsertOne_now: "now st \<le> now (upsertOne docs st p)"
  by (simp add: upsertOne_def split: option.splits)

lemma fold_now: "now st \<le> now (foldl (upsertOne docs) st chunk)"
proof (induction chunk arbitrary: st)
  case Nil
  then show ?case by simp
next
  case (Cons p chunk)
  have "now st \<le> now (upsertOne docs st p)" by (rule upsertOne_now)
  also have "\<dots> \<le> now (foldl (upsertOne docs) (upsertOne docs st p) chunk)" by (rule Cons.IH)
  finally show ?case by simp
qed

lemma fold_updated:
  "updated (foldl (upsertOne docs) st chunk)
     = updated st + length (filter (\<lambda>p. docs (id p) \<noteq> None) chunk)"
  by (induction chunk arbitrary: st) (auto simp: upsertOne_def split: option.splits)

lemma fold_added:
  "added (foldl (upsertOne docs) st chunk)
     = added st + length (filter (\<lambda>p. docs (id p) = None) chunk)"
  by (induction chunk arbitrary: st) (auto simp: upsertOne_def split: option.splits)

lemma fold_batch:
  "\<exists>ws. batch (foldl (upsertOne docs) st chunk) = batch st @ ws \<and> map fst ws = map id chunk
     \<and> (\<forall>k d. (k, d) \<in> set ws \<longrightarrow>
           now st \<le> updatedAt d \<and> updatedAt d < now (foldl (upsertOne docs) st chunk)
           \<and> (\<forall>e. docs k = Some e \<longrightarrow> createdAt d = createdAt e) \<and> (docs k = None \<longrightarrow> now st \<le> createdAt d))"
proof (induction chunk arbitrary: st)
  case Nil
  then show ?case by simp
next
  case (Cons p chunk)
  let ?st1 = "upsertOne docs st p"
  let ?fin = "foldl (upsertOne docs) ?st1 chunk"
  from Cons.IH [of ?st1] obtain ws where
    b: "batch ?fin = batch ?st1 @ ws" and m: "map fst ws = map id chunk"
    and g: "\<And>k d. (k, d) \<in> set ws \<Longrightarrow>
           now ?st1 \<le> updatedAt d \<and> updatedAt d < now ?fin
           \<and> (\<forall>e. docs k = Some e \<longrightarrow> createdAt d = createdAt e) \<and> (docs k = None \<longrightarrow> now ?st1 \<le> createdAt d)"
    by blast
  have n1: "now st \<le> now ?st1" by (rule upsertOne_now)
  have n2: "now ?st1 \<le> now ?fin" by (rule fold_now)
  obtain d0 where b1: "batch ?st1 = batch st @ [(id p, d0)]"
    and g0: "now st \<le> updatedAt d0 \<and> updatedAt d0 < now ?st1
           \<and> (\<forall>e. docs (id p) = Some e \<longrightarrow> createdAt d0 = createdAt e) \<and> (docs (id p) = None \<longrightarrow> now st \<le> createdAt d0)"
    by (cases "docs (id p)") (auto simp: upsertOne_def)
  have "batch ?fin = batch st @ ((id p, d0) # ws)" using b b1 by simp
  moreover have "map fst ((id p, d0) # ws) = map id (p # chunk)" using m by simp
  moreover have "now st \<le> updatedAt d \<and> updatedAt d < now ?fin
           \<and> (\<forall>e. docs k = Some e \<longrightarrow> createdAt d = createdAt e) \<and> (docs k = None \<longrightarrow> now st \<le> createdAt d)"
    if "(k, d) \<in> set ((id p, d0) # ws)" for k d
  proof (cases "(k, d) = (id p, d0)")
    case True
    with g0 n2 show ?thesis by auto
  next
    case False
    with that have "(k, d) \<in> set ws" by auto
    from g [OF this] n1 show ?thesis by auto
  qed
  ultimately show ?case by (metis foldl_Cons)
qed


lemma chunk_writes:
  "\<exists>ws. batch (foldl (upsertOne docs) (st\<lparr>batch := []\<rparr>) chunk) = ws
     \<and> fst ` set ws = id ` set chunk
     \<and> (\<forall>k d. (k, d) \<in> set ws \<longrightarrow>
           now st \<le> updatedAt d
           \<and> updatedAt d < now (foldl (upsertOne docs) (st\<lparr>batch := []\<rparr>) chunk)
           \<and> (\<forall>e. docs k = Some e \<longrightarrow> createdAt d = createdAt e) \<and> (docs k = None \<longrightarrow> now st \<le> createdAt d))"
proof -
  define st0 where "st0 = st\<lparr>batch := []\<rparr>"
  have z: "batch st0 = []" "now st0 = now st" by (simp_all add: st0_def)
  from fold_batch [of docs st0 chunk] obtain ws where
    b: "batch (foldl (upsertOne docs) st0 chunk) = batch st0 @ ws"
    and m: "map fst ws = map id chunk"
    and g: "\<forall>k d. (k, d) \<in> set ws \<longrightarrow>
           now st0 \<le> updatedAt d \<and> updatedAt d < now (foldl (upsertOne docs) st0 chunk)
           \<and> (\<forall>e. docs k = Some e \<longrightarrow> createdAt d = createdAt e) \<and> (docs k = None \<longrightarrow> now st0 \<le> createdAt d)"
    by blast
  from m have "fst ` set ws = id ` set chunk" by (metis set_map)
  with b g show ?thesis unfolding z st0_def by simp
qed

lemma chunk_commit_in:
  assumes "k \<in> id ` set chunk"
  shows "\<exists>d. batchCommit docs (batch (foldl (upsertOne docs) (st\<lparr>batch := []\<rparr>) chunk)) k = Some d
     \<and> now st \<le> updatedAt d \<and> updatedAt d < now (foldl (upsertOne docs) (st\<lparr>batch := []\<rparr>) chunk)
     \<and> (\<forall>e. docs k = Some e \<longrightarrow> createdAt d = createdAt e) \<and> (docs k = None \<longrightarrow> now st \<le> createdAt d)"
proof -
  from chunk_writes [of docs st chunk] obtain ws where
    b: "batch (foldl (upsertOne docs) (st\<lparr>batch := []\<rparr>) chunk) = ws"
    and m: "fst ` set ws = id ` set chunk"
    and g: "\<forall>k d. (k, d) \<in> set ws \<longrightarrow>
           now st \<le> updatedAt d
           \<and> updatedAt d < now (foldl (upsertOne docs) (st\<lparr>batch := []\<rparr>) chunk)
           \<and> (\<forall>e. docs k = Some e \<longrightarrow> createdAt d = createdAt e) \<and> (docs k = None \<longrightarrow> now st \<le> createdAt d)"
    by blast
  from m assms have "k \<in> fst ` set ws" by simp
  from batchCommit_in [OF this, of docs] obtain d where
    "(k, d) \<in> set ws" "batchCommit docs ws k = Some d" by blast
  with g show ?thesis unfolding b by blast
qed

lemma chunk_commit_notin:
  assumes "k \<notin> id ` set chunk"
  shows "batchCommit docs (batch (foldl (upsertOne docs) (st\<lparr>batch := []\<rparr>) chunk)) k = docs k"
proof -
  from chunk_writes [of docs st chunk] obtain ws where
    b: "batch (foldl (upsertOne docs) (st\<lparr>batch := []\<rparr>) chunk) = ws"
    and m: "fst ` set ws = id ` set chunk"
    by blast
  from m assms have "k \<notin> fst ` set ws" by simp
  then show ?thesis unfolding b by (rule batchCommit_notin)
qed

lemma upsertChunks_now:
  "upsertChunks docs st ps = (docsF, stF) \<Longrightarrow> now st \<le> now stF"
proof (induction docs st ps rule: upsertChunks.induct)
  case (1 docs st ps)
  show ?case
  proof (cases "ps = []")
    case True
    with "1.prems" show ?thesis by (simp add: upsertChunks.simps)
  next
    case False
    let ?chunk = "take BATCH_SIZE ps"
    let ?st1 = "foldl (upsertOne docs) (st\<lparr>batch := []\<rparr>) ?chunk"
    let ?docs1 = "batchCommit docs (batch ?st1)"
    from False "1.prems" have r: "upsertChunks ?docs1 ?st1 (drop BATCH_SIZE ps) = (docsF, stF)"
      by (simp add: upsertChunks.simps [of docs st ps] Let_def)
    from "1.IH" [OF False refl refl refl r] have "now ?st1 \<le> now stF" .
    moreover have "now st \<le> now ?st1" using fold_now [of "st\<lparr>batch := []\<rparr>" docs ?chunk] by simp
    ultimately show ?thesis by simp
  qed
qed

lemma upsertChunks_frame:
  "upsertChunks docs st ps = (docsF, stF) \<Longrightarrow> k \<notin> id ` set ps \<Longrightarrow> docsF k = docs k"
proof (induction docs st ps rule: upsertChunks.induct)
  case (1 docs st ps)
  show ?case
  proof (cases "ps = []")
    case True
    with "1.prems" show ?thesis by (simp add: upsertChunks.simps)
  next
    case False
    let ?chunk = "take BATCH_SIZE ps"
    let ?rest = "drop BATCH_SIZE ps"
    let ?st1 = "foldl (upsertOne docs) (st\<lparr>batch := []\<rparr>) ?chunk"
    let ?docs1 = "batchCommit docs (batch ?st1)"
    from False "1.prems" have r: "upsertChunks ?docs1 ?st1 ?rest = (docsF, stF)"
      by (simp add: upsertChunks.simps [of docs st ps] Let_def)
    have "set ?chunk \<subseteq> set ps" "set ?rest \<subseteq> set ps"
      by (auto dest: in_set_takeD in_set_dropD)
    with "1.prems"(2) have k: "k \<notin> id ` set ?chunk" "k \<notin> id ` set ?rest" by auto
    from "1.IH" [OF False refl refl refl r k(2)] have "docsF k = ?docs1 k" .
    with chunk_commit_notin [OF k(1)] show ?thesis by simp
  qed
qed

lemma upsertChunks_counts:
  "upsertChunks docs st ps = (docsF, stF) \<Longrightarrow>
     added stF + updated stF = added st + updated st + length ps \<and> added st \<le> added stF
     \<and> updated st + length (filter (\<lambda>p. docs (id p) \<noteq> None) ps) \<le> updated stF"
proof (induction docs st ps rule: upsertChunks.induct)
  case (1 docs st ps)
  show ?case
  proof (cases "ps = []")
    case True
    with "1.prems" show ?thesis by (simp add: upsertChunks.simps)
  next
    case False
    let ?chunk = "take BATCH_SIZE ps"
    let ?rest = "drop BATCH_SIZE ps"
    let ?st0 = "st\<lparr>batch := []\<rparr>"
    let ?st1 = "foldl (upsertOne docs) ?st0 ?chunk"
    let ?docs1 = "batchCommit docs (batch ?st1)"
    let ?ex = "\<lambda>d. \<lambda>p. d (id p) \<noteq> None"
    from False "1.prems" have r: "upsertChunks ?docs1 ?st1 ?rest = (docsF, stF)"
      by (simp add: upsertChunks.simps [of docs st ps] Let_def)
    note ih = "1.IH" [OF False refl refl refl r]
    have u: "updated ?st1 = updated st + length (filter (?ex docs) ?chunk)"
      using fold_updated [of docs ?st0 ?chunk] by simp
    have a: "added ?st1 = added st + length (filter (\<lambda>p. docs (id p) = None) ?chunk)"
      using fold_added [of docs ?st0 ?chunk] by simp
    have s: "length (filter (?ex docs) ?chunk) + length (filter (\<lambda>p. docs (id p) = None) ?chunk)
        = length ?chunk"
      using sum_length_filter_compl [of "?ex docs" ?chunk] by simp
    have l: "length ?chunk + length ?rest = length ps"
      by (metis append_take_drop_id length_append)
    have mono: "docs k \<noteq> None \<Longrightarrow> ?docs1 k \<noteq> None" for k
      using chunk_commit_in [of k ?chunk docs st] chunk_commit_notin [of k ?chunk docs st]
      by (cases "k \<in> id ` set ?chunk") auto
    have "length (filter (?ex docs) ?rest) \<le> length (filter (?ex ?docs1) ?rest)"
    proof -
      have "filter (?ex docs) ?rest = filter (?ex docs) (filter (?ex ?docs1) ?rest)"
        using mono by (auto intro: filter_cong)
      then show ?thesis by (metis length_filter_le)
    qed
    moreover have "length (filter (?ex docs) ps)
        = length (filter (?ex docs) ?chunk) + length (filter (?ex docs) ?rest)"
      by (metis append_take_drop_id filter_append length_append)
    ultimately show ?thesis using ih u a s l by linarith
  qed
qed


lemma upsertChunks_kept:
  "upsertChunks docs st ps = (docsF, stF) \<Longrightarrow>
     \<forall>e. docs k = Some e \<longrightarrow> (\<exists>d. docsF k = Some d \<and> createdAt d = createdAt e)"
proof (induction docs st ps rule: upsertChunks.induct)
  case (1 docs st ps)
  show ?case
  proof (cases "ps = []")
    case True
    with "1.prems" show ?thesis by (simp add: upsertChunks.simps)
  next
    case False
    let ?chunk = "take BATCH_SIZE ps"
    let ?rest = "drop BATCH_SIZE ps"
    let ?st1 = "foldl (upsertOne docs) (st\<lparr>batch := []\<rparr>) ?chunk"
    let ?docs1 = "batchCommit docs (batch ?st1)"
    from False "1.prems" have r: "upsertChunks ?docs1 ?st1 ?rest = (docsF, stF)"
      by (simp add: upsertChunks.simps [of docs st ps] Let_def)
    note ih = "1.IH" [OF False refl refl refl r]
    show ?thesis
    proof (intro allI impI)
      fix e assume e: "docs k = Some e"
      have "\<exists>d1. ?docs1 k = Some d1 \<and> createdAt d1 = createdAt e"
        using chunk_commit_in [of k ?chunk docs st] chunk_commit_notin [of k ?chunk docs st] e
        by (cases "k \<in> id ` set ?chunk") auto
      with ih show "\<exists>d. docsF k = Some d \<and> createdAt d = createdAt e" by auto
    qed
  qed
qed

lemma upsertChunks_counts_distinct:
  "upsertChunks docs st ps = (docsF, stF) \<Longrightarrow> distinct (map id ps) \<Longrightarrow>
     updated stF = updated st + length (filter (\<lambda>p. docs (id p) \<noteq> None) ps)
     \<and> added stF = added st + length (filter (\<lambda>p. docs (id p) = None) ps)"
proof (induction docs st ps rule: upsertChunks.induct)
  case (1 docs st ps)
  show ?case
  proof (cases "ps = []")
    case True
    with "1.prems" show ?thesis by (simp add: upsertChunks.simps)
  next
    case False
    let ?chunk = "take BATCH_SIZE ps"
    let ?rest = "drop BATCH_SIZE ps"
    let ?st0 = "st\<lparr>batch := []\<rparr>"
    let ?st1 = "foldl (upsertOne docs) ?st0 ?chunk"
    let ?docs1 = "batchCommit docs (batch ?st1)"
    from False "1.prems" have r: "upsertChunks ?docs1 ?st1 ?rest = (docsF, stF)"
      by (simp add: upsertChunks.simps [of docs st ps] Let_def)
    have "distinct (map id (?chunk @ ?rest))" using "1.prems"(2) by simp
    then have dr: "distinct (map id ?rest)" and dj: "id ` set ?chunk \<inter> id ` set ?rest = {}"
      by (simp_all only: map_append distinct_append set_map)
    note ih = "1.IH" [OF False refl refl refl r dr]
    have same: "?docs1 (id p) = docs (id p)" if "p \<in> set ?rest" for p
    proof -
      from that dj have "id p \<notin> id ` set ?chunk" by auto
      then show ?thesis by (rule chunk_commit_notin)
    qed
    have f1: "filter (\<lambda>p. ?docs1 (id p) \<noteq> None) ?rest = filter (\<lambda>p. docs (id p) \<noteq> None) ?rest"
      using same by (auto intro: filter_cong)
    have f2: "filter (\<lambda>p. ?docs1 (id p) = None) ?rest = filter (\<lambda>p. docs (id p) = None) ?rest"
      using same by (auto intro: filter_cong)
    have u: "updated ?st1 = updated st + length (filter (\<lambda>p. docs (id p) \<noteq> None) ?chunk)"
      using fold_updated [of docs ?st0 ?chunk] by simp
    have a: "added ?st1 = added st + length (filter (\<lambda>p. docs (id p) = None) ?chunk)"
      using fold_added [of docs ?st0 ?chunk] by simp
    have s1: "length (filter (\<lambda>p. docs (id p) \<noteq> None) ps)
        = length (filter (\<lambda>p. docs (id p) \<noteq> None) ?chunk) + length (filter (\<lambda>p. docs (id p) \<noteq> None) ?rest)"
      by (metis append_take_drop_id filter_append length_append)
    have s2: "length (filter (\<lambda>p. docs (id p) = None) ps)
        = length (filter (\<lambda>p. docs (id p) = None) ?chunk) + length (filter (\<lambda>p. docs (id p) = None) ?rest)"
      by (metis append_take_drop_id filter_append length_append)
    from ih u a s1 s2 show ?thesis unfolding f1 f2 by linarith
  qed
qed

lemma upsertChunks_written:
  "upsertChunks docs st ps = (docsF, stF) \<Longrightarrow> k \<in> id ` set ps \<Longrightarrow>
     \<exists>d. docsF k = Some d \<and> now st \<le> updatedAt d \<and> updatedAt d < now stF
       \<and> (\<forall>e. docs k = Some e \<longrightarrow> createdAt d = createdAt e)
       \<and> (docs k = None \<longrightarrow> now st \<le> createdAt d)"
proof (induction docs st ps rule: upsertChunks.induct)
  case (1 docs st ps)
  show ?case
  proof (cases "ps = []")
    case True
    from "1.prems"(2) True show ?thesis by simp
  next
    case False
    let ?chunk = "take BATCH_SIZE ps"
    let ?rest = "drop BATCH_SIZE ps"
    let ?st1 = "foldl (upsertOne docs) (st\<lparr>batch := []\<rparr>) ?chunk"
    let ?docs1 = "batchCommit docs (batch ?st1)"
    from False "1.prems" have r: "upsertChunks ?docs1 ?st1 ?rest = (docsF, stF)"
      by (simp add: upsertChunks.simps [of docs st ps] Let_def)
    note ih = "1.IH" [OF False refl refl refl r]
    have n1: "now st \<le> now ?st1" using fold_now [of "st\<lparr>batch := []\<rparr>" docs ?chunk] by simp
    have n2: "now ?st1 \<le> now stF" using r by (rule upsertChunks_now)
    have "k \<in> id ` set (?chunk @ ?rest)" using "1.prems"(2) by simp
    then have k: "k \<in> id ` set ?chunk \<or> k \<in> id ` set ?rest"
      by (simp only: set_append image_Un Un_iff)
    show ?thesis
    proof (cases "k \<in> id ` set ?chunk")
      case True
      from chunk_commit_in [OF True, of docs st] obtain d1 where
        "?docs1 k = Some d1 \<and> now st \<le> updatedAt d1 \<and> updatedAt d1 < now ?st1
          \<and> (\<forall>e. docs k = Some e \<longrightarrow> createdAt d1 = createdAt e)
          \<and> (docs k = None \<longrightarrow> now st \<le> createdAt d1)" ..
      then have d1: "?docs1 k = Some d1" "now st \<le> updatedAt d1" "updatedAt d1 < now ?st1"
        "\<forall>e. docs k = Some e \<longrightarrow> createdAt d1 = createdAt e"
        "docs k = None \<longrightarrow> now st \<le> createdAt d1"
        by simp_all
      show ?thesis
      proof (cases "k \<in> id ` set ?rest")
        case True
        from ih [OF True] obtain d where
          "docsF k = Some d \<and> now ?st1 \<le> updatedAt d \<and> updatedAt d < now stF
            \<and> (\<forall>e. ?docs1 k = Some e \<longrightarrow> createdAt d = createdAt e)
            \<and> (?docs1 k = None \<longrightarrow> now ?st1 \<le> createdAt d)" ..
        then have d: "docsF k = Some d" "now ?st1 \<le> updatedAt d" "updatedAt d < now stF"
          "\<forall>e. ?docs1 k = Some e \<longrightarrow> createdAt d = createdAt e"
          by simp_all
        from d(4) d1(1) have c: "createdAt d = createdAt d1" by simp
        have "now st \<le> updatedAt d" using d(2) n1 by linarith
        moreover have "\<forall>e. docs k = Some e \<longrightarrow> createdAt d = createdAt e"
          using d1(4) c by simp
        moreover have "docs k = None \<longrightarrow> now st \<le> createdAt d"
          using d1(5) c by simp
        ultimately have "docsF k = Some d \<and> now st \<le> updatedAt d \<and> updatedAt d < now stF
            \<and> (\<forall>e. docs k = Some e \<longrightarrow> createdAt d = createdAt e)
            \<and> (docs k = None \<longrightarrow> now st \<le> createdAt d)"
          using d(1) d(3) by simp
        then show ?thesis ..
      next
        case False
        from upsertChunks_frame [OF r False] d1(1) have f: "docsF k = Some d1" by simp
        have "updatedAt d1 < now stF" using d1(3) n2 by linarith
        with f d1(2) d1(4) d1(5)
        have "docsF k = Some d1 \<and> now st \<le> updatedAt d1 \<and> updatedAt d1 < now stF
            \<and> (\<forall>e. docs k = Some e \<longrightarrow> createdAt d1 = createdAt e)
            \<and> (docs k = None \<longrightarrow> now st \<le> createdAt d1)"
          by simp
        then show ?thesis ..
      qed
    next
      case False
      with k have kr: "k \<in> id ` set ?rest" by simp
      from chunk_commit_notin [OF False, of docs st] have same: "?docs1 k = docs k" .
      from ih [OF kr] obtain d where
        "docsF k = Some d \<and> now ?st1 \<le> updatedAt d \<and> updatedAt d < now stF
          \<and> (\<forall>e. ?docs1 k = Some e \<longrightarrow> createdAt d = createdAt e)
          \<and> (?docs1 k = None \<longrightarrow> now ?st1 \<le> createdAt d)" ..
      then have d: "docsF k = Some d" "now ?st1 \<le> updatedAt d" "updatedAt d < now stF"
        "\<forall>e. ?docs1 k = Some e \<longrightarrow> createdAt d = createdAt e"
        "?docs1 k = None \<longrightarrow> now ?st1 \<le> createdAt d"
        by simp_all
      have "now st \<le> updatedAt d" using d(2) n1 by linarith
      moreover have "\<forall>e. docs k = Some e \<longrightarrow> createdAt d = createdAt e"
        using d(4) same by simp
      moreover have "docs k = None \<longrightarrow> now st \<le> createdAt d"
        using d(5) same n1 by auto
      ultimately have "docsF k = Some d \<and> now st \<le> updatedAt d \<and> updatedAt d < now stF
          \<and> (\<forall>e. docs k = Some e \<longrightarrow> createdAt d = createdAt e)
          \<and> (docs k = None \<longrightarrow> now st \<le> createdAt d)"
        using d(1) d(3) by simp
      then show ?thesis ..
    qed
  qed
qed



lemma upsertProducts_unfold:
  assumes "upsertProducts w ps = (r, w')"
  obtains docsF stF where
    "upsertChunks (productDocs w) \<lparr>batch = [], now = clock w, added = 0, updated = 0\<rparr> ps = (docsF, stF)"
    "resultAdded r = added stF" "resultUpdated r = updated stF"
    "productDocs w' = docsF" "clock w' = now stF"
  using assms by (auto simp: upsertProducts_def split: prod.splits)

lemma upsertProducts_written:
  assumes run: "upsertProducts w ps = (r, w')" and p: "p \<in> set ps"
  shows "\<exists>d. productDocs w' (id p) = Some d \<and> clock w \<le> updatedAt d \<and> updatedAt d < clock w'
       \<and> (\<forall>e. productDocs w (id p) = Some e \<longrightarrow> createdAt d = createdAt e)
       \<and> (productDocs w (id p) = None \<longrightarrow> clock w \<le> createdAt d)"
proof -
  from run obtain docsF stF where
    u: "upsertChunks (productDocs w) \<lparr>batch = [], now = clock w, added = 0, updated = 0\<rparr> ps = (docsF, stF)"
    and e: "productDocs w' = docsF" "clock w' = now stF"
    by (rule upsertProducts_unfold)
  from p have "id p \<in> id ` set ps" by simp
  from upsertChunks_written [OF u this] show ?thesis unfolding e by simp
qed

lemma upsertProducts_counts:
  assumes run: "upsertProducts w ps = (r, w')"
  shows "resultAdded r + resultUpdated r = length ps"
    and "length (filter (\<lambda>p. productDocs w (id p) \<noteq> None) ps) \<le> resultUpdated r"
    and "distinct (map id ps) \<Longrightarrow>
           resultUpdated r = length (filter (\<lambda>p. productDocs w (id p) \<noteq> None) ps)
           \<and> resultAdded r = length (filter (\<lambda>p. productDocs w (id p) = None) ps)"
proof -
  from run obtain docsF stF where
    u: "upsertChunks (productDocs w) \<lparr>batch = [], now = clock w, added = 0, updated = 0\<rparr> ps = (docsF, stF)"
    and e: "resultAdded r = added stF" "resultUpdated r = updated stF"
    by (rule upsertProducts_unfold)
  from upsertChunks_counts [OF u]
  show "resultAdded r + resultUpdated r = length ps"
    and "length (filter (\<lambda>p. productDocs w (id p) \<noteq> None) ps) \<le> resultUpdated r"
    unfolding e by simp_all
  show "resultUpdated r = length (filter (\<lambda>p. productDocs w (id p) \<noteq> None) ps)
           \<and> resultAdded r = length (filter (\<lambda>p. productDocs w (id p) = None) ps)"
    if "distinct (map id ps)"
    using upsertChunks_counts_distinct [OF u that] unfolding e by simp
qed

text \<open>
  C4. For every batch upsert, an item whose id is in the store when the upsert starts is
  rewritten with the stored creation timestamp and a fresh update timestamp, and an item
  whose id is new gets two fresh timestamps. Every item is counted once, an item with a
  stored id as updated, whether or not any field differs; with distinct ids in the list
  the two counters are exactly the numbers of stored and of new ids. Hence a second upsert
  of the same list, at any later time, reports no additions, counts every item as updated,
  keeps every creation timestamp and advances every update timestamp.
\<close>

theorem upsertProducts_counts_and_timestamps:
  assumes run: "upsertProducts w ps = (r, w')"
  shows "(\<forall>p \<in> set ps. \<forall>e. productDocs w (id p) = Some e \<longrightarrow>
            (\<exists>d. productDocs w' (id p) = Some d \<and> createdAt d = createdAt e
                 \<and> clock w \<le> updatedAt d \<and> updatedAt d < clock w'))
    \<and> (\<forall>p \<in> set ps. productDocs w (id p) = None \<longrightarrow>
            (\<exists>d. productDocs w' (id p) = Some d \<and> clock w \<le> createdAt d
                 \<and> clock w \<le> updatedAt d \<and> updatedAt d < clock w'))
    \<and> resultAdded r + resultUpdated r = length ps
    \<and> length (filter (\<lambda>p. productDocs w (id p) \<noteq> None) ps) \<le> resultUpdated r
    \<and> (distinct (map id ps) \<longrightarrow>
          resultUpdated r = length (filter (\<lambda>p. productDocs w (id p) \<noteq> None) ps)
          \<and> resultAdded r = length (filter (\<lambda>p. productDocs w (id p) = None) ps))
    \<and> (\<forall>c r2 w2. clock w' \<le> c \<longrightarrow> upsertProducts (w'\<lparr>clock := c\<rparr>) ps = (r2, w2) \<longrightarrow>
          resultAdded r2 = 0 \<and> resultUpdated r2 = length ps
          \<and> (\<forall>p \<in> set ps. \<exists>d1 d2. productDocs w' (id p) = Some d1
                \<and> productDocs w2 (id p) = Some d2
                \<and> createdAt d2 = createdAt d1 \<and> updatedAt d1 < updatedAt d2))"
proof -
  have a: "\<exists>d. productDocs w' (id p) = Some d \<and> createdAt d = createdAt e
                 \<and> clock w \<le> updatedAt d \<and> updatedAt d < clock w'"
    if "p \<in> set ps" and "productDocs w (id p) = Some e" for p e
    using upsertProducts_written [OF run that(1)] that(2) by auto
  have b: "\<exists>d. productDocs w' (id p) = Some d \<and> clock w \<le> createdAt d
                 \<and> clock w \<le> updatedAt d \<and> updatedAt d < clock w'"
    if "p \<in> set ps" and "productDocs w (id p) = None" for p
    using upsertProducts_written [OF run that(1)] that(2) by auto
  note c = upsertProducts_counts [OF run]
  have d: "resultAdded r2 = 0 \<and> resultUpdated r2 = length ps
          \<and> (\<forall>p \<in> set ps. \<exists>d1 d2. productDocs w' (id p) = Some d1
                \<and> productDocs w2 (id p) = Some d2
                \<and> createdAt d2 = createdAt d1 \<and> updatedAt d1 < updatedAt d2)"
    if later: "clock w' \<le> c" and run2: "upsertProducts (w'\<lparr>clock := c\<rparr>) ps = (r2, w2)"
    for c r2 w2
  proof -
    have ex: "\<exists>d1. productDocs w' (id p) = Some d1 \<and> updatedAt d1 < clock w'"
      if "p \<in> set ps" for p
      using upsertProducts_written [OF run that] by auto
    then have "filter (\<lambda>p. productDocs (w'\<lparr>clock := c\<rparr>) (id p) \<noteq> None) ps = ps"
      by (auto simp: filter_id_conv)
    with upsertProducts_counts(1,2) [OF run2]
    have cnt: "resultAdded r2 = 0 \<and> resultUpdated r2 = length ps" by simp
    have "\<exists>d1 d2. productDocs w' (id p) = Some d1 \<and> productDocs w2 (id p) = Some d2
                \<and> createdAt d2 = createdAt d1 \<and> updatedAt d1 < updatedAt d2"
      if p: "p \<in> set ps" for p
    proof -
      from ex [OF p] obtain d1 where d1: "productDocs w' (id p) = Some d1" "updatedAt d1 < clock w'"
        by auto
      from upsertProducts_written [OF run2 p] obtain d2 where
        d2: "productDocs w2 (id p) = Some d2" "c \<le> updatedAt d2"
        "\<forall>e. productDocs w' (id p) = Some e \<longrightarrow> createdAt d2 = createdAt e"
        by auto
      from d1 d2 later have "createdAt d2 = createdAt d1 \<and> updatedAt d1 < updatedAt d2" by simp
      with d1(1) d2(1) show ?thesis by blast
    qed
    with cnt show ?thesis by blast
  qed
  show ?thesis
    using a b c(1) c(2) c(3) d by - (intro conjI ballI allI impI; blast)
qed


theorem upsertProducts_second_sync_witness:
  "resultAdded (fst (upsertProducts emptyStore [viina, koskenkorvaViina])) = 2
   \<and> resultAdded (fst (upsertProducts (snd (upsertProducts emptyStore [viina, koskenkorvaViina]))
         [viina, koskenkorvaViina])) = 0
   \<and> resultUpdated (fst (upsertProducts (snd (upsertProducts emptyStore [viina, koskenkorvaViina]))
         [viina, koskenkorvaViina])) = 2"
proof -
  let ?ps = "[viina, koskenkorvaViina]"
  let ?run1 = "upsertProducts emptyStore ?ps"
  let ?run2 = "upsertProducts (snd ?run1) ?ps"
  note t = upsertProducts_counts_and_timestamps [of emptyStore ?ps "fst ?run1" "snd ?run1",
      OF prod.collapse [symmetric]]
  have dist: "distinct (map id ?ps)" by (simp add: viina_def koskenkorvaViina_def)
  have none: "filter (\<lambda>p. productDocs emptyStore (id p) = None) ?ps = ?ps"
    by (simp add: emptyStore_def)
  from t have "distinct (map id ?ps) \<longrightarrow>
          resultUpdated (fst ?run1) = length (filter (\<lambda>p. productDocs emptyStore (id p) \<noteq> None) ?ps)
          \<and> resultAdded (fst ?run1) = length (filter (\<lambda>p. productDocs emptyStore (id p) = None) ?ps)"
    by (elim conjE)
  with dist none have first: "resultAdded (fst ?run1) = 2" by simp
  from t have "\<forall>c r2 w2. clock (snd ?run1) \<le> c \<longrightarrow>
      upsertProducts ((snd ?run1)\<lparr>clock := c\<rparr>) ?ps = (r2, w2) \<longrightarrow>
          resultAdded r2 = 0 \<and> resultUpdated r2 = length ?ps
          \<and> (\<forall>p \<in> set ?ps. \<exists>d1 d2. productDocs (snd ?run1) (id p) = Some d1
                \<and> productDocs w2 (id p) = Some d2
                \<and> createdAt d2 = createdAt d1 \<and> updatedAt d1 < updatedAt d2)"
    by (elim conjE)
  then have "clock (snd ?run1) \<le> clock (snd ?run1) \<longrightarrow>
      upsertProducts ((snd ?run1)\<lparr>clock := clock (snd ?run1)\<rparr>) ?ps = (fst ?run2, snd ?run2) \<longrightarrow>
          resultAdded (fst ?run2) = 0 \<and> resultUpdated (fst ?run2) = length ?ps"
    by blast
  then have second: "resultAdded (fst ?run2) = 0 \<and> resultUpdated (fst ?run2) = 2" by simp
  from first second show ?thesis by simp
qed

section \<open>Bootstrap\<close>

lemma bootInv_init: "bootInv 0 bootInit"
  by (simp add: bootInv_def bootInit_def)

lemma bootInv_step:
  "bootInv n s \<Longrightarrow> bootInv (if isCall ev then Suc n else n) (bootStep seed s ev)"
  by (cases ev)
    (auto simp: bootInv_def isCall_def finish_def loadStores_def afterProductCount_def Let_def
      split: if_splits option.splits awaited.splits outcome.splits)

lemma bootInv_run:
  "bootInv n s \<Longrightarrow> bootInv (n + length (filter isCall evs)) (bootRun seed s evs)"
proof (induction evs arbitrary: n s)
  case Nil
  then show ?case by (simp add: bootRun_def)
next
  case (Cons ev evs)
  from bootInv_step [OF Cons.prems, of ev seed]
  have "bootInv (if isCall ev then Suc n else n) (bootStep seed s ev)" .
  from Cons.IH [OF this] show ?case by (auto simp: bootRun_def)
qed

lemma bootInv_reach:
  "bootInv (length (filter isCall evs)) (bootRun seed bootInit evs)"
  using bootInv_run [OF bootInv_init, of evs seed] by simp

lemma checked_step:
  "seedDataChecked s \<Longrightarrow> seedDataLoading s = None \<Longrightarrow>
     seedDataChecked (bootStep seed s ev) \<and> seedDataLoading (bootStep seed s ev) = None
     \<and> seedLoads (bootStep seed s ev) = seedLoads s"
  by (cases ev) auto

lemma checked_run:
  "seedDataChecked s \<Longrightarrow> seedDataLoading s = None \<Longrightarrow>
     seedDataChecked (bootRun seed s evs) \<and> seedDataLoading (bootRun seed s evs) = None
     \<and> seedLoads (bootRun seed s evs) = seedLoads s"
proof (induction evs arbitrary: s)
  case Nil
  then show ?case by (simp add: bootRun_def)
next
  case (Cons ev evs)
  from checked_step [OF Cons.prems, of seed ev] Cons.IH [of "bootStep seed s ev"]
  show ?case by (simp add: bootRun_def)
qed

lemma seedLoads_step_mono: "seedLoads s \<le> seedLoads (bootStep seed s ev)"
  by (cases ev)
    (auto simp: finish_def loadStores_def afterProductCount_def Let_def
      split: option.splits awaited.splits outcome.splits)

lemma seedLoads_run_mono: "seedLoads s \<le> seedLoads (bootRun seed s evs)"
proof (induction evs arbitrary: s)
  case Nil
  then show ?case by (simp add: bootRun_def)
next
  case (Cons ev evs)
  have "seedLoads s \<le> seedLoads (bootStep seed s ev)" by (rule seedLoads_step_mono)
  also have "\<dots> \<le> seedLoads (bootRun seed (bootStep seed s ev) evs)" by (rule Cons.IH)
  finally show ?case by (simp add: bootRun_def)
qed

lemma bootRun_append: "bootRun seed s (evs @ evs') = bootRun seed (bootRun seed s evs) evs'"
  by (simp add: bootRun_def)

lemma calls_share_one_operation:
  "bootRun seed bootInit (replicate (Suc n) Call)
     = bootInit\<lparr>seedDataLoading := Some AwaitProductCount, awaiting := Suc n\<rparr>"
proof (induction n)
  case 0
  then show ?case by (simp add: bootRun_def bootInit_def)
next
  case (Suc n)
  have "replicate (Suc (Suc n)) Call = replicate (Suc n) Call @ [Call]"
    by (metis replicate_Suc replicate_append_same)
  then show ?case
    using Suc by (simp only: bootRun_append) (simp add: bootRun_def bootInit_def)
qed

lemma loads_le_1: "seedLoads (bootRun seed bootInit evs) \<le> 1"
  using bootInv_reach [of evs seed]
  by (auto simp: bootInv_def split: if_splits option.splits awaited.splits)

lemma empty_store_loads_once:
  "seedLoads (bootRun seed bootInit (replicate (Suc n) Call @ ProductCount (Some 0) # rest)) = 1"
proof -
  let ?s1 = "bootRun seed bootInit (replicate (Suc n) Call @ [ProductCount (Some 0)])"
  have "seedLoads ?s1 = 1"
    by (simp only: bootRun_append calls_share_one_operation)
      (simp add: bootRun_def bootInit_def afterProductCount_def Let_def finish_def loadStores_def
        split: option.splits)
  moreover have "seedLoads ?s1 \<le> seedLoads (bootRun seed ?s1 rest)" by (rule seedLoads_run_mono)
  moreover have "bootRun seed ?s1 rest
      = bootRun seed bootInit (replicate (Suc n) Call @ ProductCount (Some 0) # rest)"
    by (simp add: bootRun_def)
  ultimately show ?thesis
    using loads_le_1 [of seed "replicate (Suc n) Call @ ProductCount (Some 0) # rest"] by simp
qed

text \<open>
  C5. Whatever the sequence of calls and of settled promises, the seed bundle is loaded at
  most once. However many callers call before the product count has arrived, they all hold
  the one operation in flight, and nothing has been loaded yet; when the count then says
  that the store is empty, the seed bundle is loaded exactly once, whatever follows. When
  the operation has ended, by success or by an error, every caller's promise has settled
  and the process is marked as checked; from then on it stays so and no later call loads
  anything.
\<close>

theorem ensureData_single_flight:
  "seedLoads (bootRun seed bootInit evs) \<le> 1
   \<and> awaiting (bootRun seed bootInit evs) + settled (bootRun seed bootInit evs)
       = length (filter isCall evs)
   \<and> (seedDataLoading (bootRun seed bootInit evs) = None \<longrightarrow>
        settled (bootRun seed bootInit evs) = length (filter isCall evs)
        \<and> (Call \<in> set evs \<longrightarrow> seedDataChecked (bootRun seed bootInit evs)))
   \<and> (seedDataChecked (bootRun seed bootInit evs) \<longrightarrow>
        (\<forall>later. seedDataChecked (bootRun seed bootInit (evs @ later))
           \<and> seedDataLoading (bootRun seed bootInit (evs @ later)) = None
           \<and> seedLoads (bootRun seed bootInit (evs @ later)) = seedLoads (bootRun seed bootInit evs)))
   \<and> seedDataLoading (bootRun seed bootInit (replicate (Suc n) Call)) = Some AwaitProductCount
   \<and> awaiting (bootRun seed bootInit (replicate (Suc n) Call)) = Suc n
   \<and> seedLoads (bootRun seed bootInit (replicate (Suc n) Call)) = 0
   \<and> seedLoads (bootRun seed bootInit (replicate (Suc n) Call @ ProductCount (Some 0) # rest)) = 1"
proof -
  let ?s = "bootRun seed bootInit evs"
  note inv = bootInv_reach [of evs seed]
  have a: "seedLoads ?s \<le> 1" by (rule loads_le_1)
  have b: "awaiting ?s + settled ?s = length (filter isCall evs)"
    using inv by (simp add: bootInv_def)
  have c1: "settled ?s = length (filter isCall evs)" if "seedDataLoading ?s = None"
    using inv that by (auto simp: bootInv_def split: if_splits)
  have c2: "seedDataChecked ?s" if "seedDataLoading ?s = None" and "Call \<in> set evs"
  proof -
    from that(2) have "length (filter isCall evs) > 0"
      by (auto simp: isCall_def filter_empty_conv)
    with inv that(1) show ?thesis by (auto simp: bootInv_def split: if_splits)
  qed
  have d: "seedDataChecked (bootRun seed bootInit (evs @ later))
           \<and> seedDataLoading (bootRun seed bootInit (evs @ later)) = None
           \<and> seedLoads (bootRun seed bootInit (evs @ later)) = seedLoads ?s"
    if "seedDataChecked ?s" for later
  proof -
    from inv that have "seedDataLoading ?s = None" by (simp add: bootInv_def)
    from checked_run [OF that this, of seed later] show ?thesis by (simp only: bootRun_append)
  qed
  have e: "seedDataLoading (bootRun seed bootInit (replicate (Suc n) Call)) = Some AwaitProductCount"
    "awaiting (bootRun seed bootInit (replicate (Suc n) Call)) = Suc n"
    "seedLoads (bootRun seed bootInit (replicate (Suc n) Call)) = 0"
    by (simp_all only: calls_share_one_operation) (simp_all add: bootInit_def)
  note f = empty_store_loads_once [of seed n rest]
  show ?thesis
    using a b c1 c2 d e f by - (intro conjI impI allI; blast)
qed


theorem ensureData_single_flight_witness:
  "seedDataLoading (bootRun bundledSeed bootInit
       [Call, Call, Call, ProductCount (Some 0), UpsertProductsDone Rejected]) = None
   \<and> Call \<in> set [Call, Call, Call, ProductCount (Some 0), UpsertProductsDone Rejected]
   \<and> seedDataChecked (bootRun bundledSeed bootInit
       [Call, Call, Call, ProductCount (Some 0), UpsertProductsDone Rejected])
   \<and> settled (bootRun bundledSeed bootInit
       [Call, Call, Call, ProductCount (Some 0), UpsertProductsDone Rejected]) = 3
   \<and> seedLoads (bootRun bundledSeed bootInit
       ([Call, Call, Call, ProductCount (Some 0), UpsertProductsDone Rejected]
          @ [Call, ProductCount (Some 0)])) = 1"
proof -
  let ?evs = "[Call, Call, Call, ProductCount (Some 0), UpsertProductsDone Rejected]"
  let ?s = "bootRun bundledSeed bootInit ?evs"
  have h1: "seedDataLoading ?s = None" by code_simp
  have h2: "Call \<in> set ?evs" by simp
  have h3: "seedLoads ?s = 1" by code_simp
  have h4: "length (filter isCall ?evs) = 3" by (simp add: isCall_def)
  note t = ensureData_single_flight [of bundledSeed ?evs 0 "[]"]
  from t have "seedDataLoading ?s = None \<longrightarrow>
        settled ?s = length (filter isCall ?evs) \<and> (Call \<in> set ?evs \<longrightarrow> seedDataChecked ?s)"
    by (elim conjE)
  with h1 h2 h4 have c: "settled ?s = 3 \<and> seedDataChecked ?s" by simp
  from t have "seedDataChecked ?s \<longrightarrow>
        (\<forall>later. seedDataChecked (bootRun bundledSeed bootInit (?evs @ later))
           \<and> seedDataLoading (bootRun bundledSeed bootInit (?evs @ later)) = None
           \<and> seedLoads (bootRun bundledSeed bootInit (?evs @ later)) = seedLoads ?s)"
    by (elim conjE)
  with c h3 have "seedLoads (bootRun bundledSeed bootInit (?evs @ [Call, ProductCount (Some 0)])) = 1"
    by simp
  with h1 h2 c show ?thesis by simp
qed

section \<open>Availability\<close>

lemma getCachedAvailability_None:
  "fst (getCachedAvailability st pid) = None
     \<longleftrightarrow> cache st pid = None \<and> storedAvailability st pid = []"
  by (auto simp: getCachedAvailability_def Let_def split: option.splits list.splits)

lemma getCachedAvailability_None_state:
  "getCachedAvailability st pid = (None, st1) \<Longrightarrow> st1 = st"
  by (auto simp: getCachedAvailability_def Let_def split: option.splits list.splits)

lemma getProductAvailability_error:
  "cache st pid = None \<Longrightarrow> getProductAvailability st pid pname (ScrapeError e) = (Inl e, st)"
  by (simp add: getProductAvailability_def)

lemma getProductAvailability_hit:
  "cache st pid = Some cached \<Longrightarrow>
     getProductAvailability st pid pname outcome = (Inr (cached\<lparr>fromCache := True\<rparr>), st)"
  by (simp add: getProductAvailability_def)

lemma scrapeFresh_error_miss:
  assumes "cache st (inputProductId input) = None"
  shows "fst (scrapeFresh toLowerCase input pname (ScrapeError e) st)
           = Inr (fst (getCachedAvailability st (inputProductId input)))"
  using assms
  by (cases "getCachedAvailability st (inputProductId input)")
     (auto simp: scrapeFresh_def getProductAvailability_error split: option.splits)

lemma scrapeFresh_hit:
  assumes "cache st (inputProductId input) = Some cached"
  shows "fst (scrapeFresh toLowerCase input pname outcome st)
           = Inr (Some (cached\<lparr>fromCache := True,
                   stores := filterByCity toLowerCase (city input) (stores cached)\<rparr>))"
  using assms by (simp add: scrapeFresh_def getProductAvailability_hit)

lemma getCachedAvailability_hit:
  "cache st pid = Some cached \<Longrightarrow> getCachedAvailability st pid = (Some (cached\<lparr>fromCache := True\<rparr>), st)"
  by (simp add: getCachedAvailability_def)

text \<open>
  C6. When the fresh scrape of an availability request raises an error, the request does
  not fail: it answers with the persisted record of the product, from the in-memory cache
  or else from the store, and it answers with nothing exactly when neither holds a record.
  When the scrape was forced and the cache held nothing, so that the browser was really
  asked, the answer is the persisted record as it is.
\<close>

theorem getAvailability_scrape_error_falls_back:
  assumes run: "getAvailability toLowerCase input pname (ScrapeError e) st = (res, st')"
  shows "(\<forall>err. res \<noteq> Inl err)
     \<and> (res = Inr None \<longleftrightarrow>
          cache st (inputProductId input) = None \<and> storedAvailability st (inputProductId input) = [])
     \<and> (\<forall>r. res = Inr (Some r) \<longrightarrow>
          (\<exists>persisted. fst (getCachedAvailability st (inputProductId input)) = Some persisted
             \<and> (r = persisted
                 \<or> r = persisted\<lparr>stores := filterByCity toLowerCase (city input) (stores persisted)\<rparr>)))
     \<and> (forceRefresh input \<and> cache st (inputProductId input) = None \<longrightarrow>
          res = Inr (fst (getCachedAvailability st (inputProductId input))))"
proof -
  let ?pid = "inputProductId input"
  have res: "res = fst (getAvailability toLowerCase input pname (ScrapeError e) st)" using run by simp
  show ?thesis
  proof (cases "cache st ?pid")
    case (Some cached)
    then have "res = Inr (Some (cached\<lparr>fromCache := True,
                   stores := filterByCity toLowerCase (city input) (stores cached)\<rparr>))"
      unfolding res
      by (simp add: getAvailability_def getCachedAvailability_hit scrapeFresh_hit)
    with Some show ?thesis by (simp add: getCachedAvailability_hit)
  next
    case None
    show ?thesis
    proof (cases "forceRefresh input")
      case True
      with None have "res = Inr (fst (getCachedAvailability st ?pid))"
        unfolding res by (simp add: getAvailability_def scrapeFresh_error_miss)
      then show ?thesis
        using getCachedAvailability_None [of st ?pid] by auto
    next
      case False
      show ?thesis
      proof (cases "getCachedAvailability st ?pid")
        case (Pair c st1)
        show ?thesis
        proof (cases c)
          case n: None
          with Pair have st1: "st1 = st" by (simp add: getCachedAvailability_None_state)
          from False Pair n st1 None have "res = Inr None"
            unfolding res by (simp add: getAvailability_def scrapeFresh_error_miss)
          with Pair n False show ?thesis
            using getCachedAvailability_None [of st ?pid] by simp
        next
          case (Some persisted)
          with False Pair have "res = Inr (Some (persisted\<lparr>stores := filterByCity toLowerCase (city input) (stores persisted)\<rparr>))"
            unfolding res by (simp add: getAvailability_def)
          with Pair Some False show ?thesis
            using getCachedAvailability_None [of st ?pid] by auto
        qed
      qed
    qed
  qed
qed

theorem getAvailability_scrape_error_witness:
  "fst (getAvailability asciiLowerCase helsinkiRefresh (Some ''Viina'') (ScrapeError ''Timeout 30000ms exceeded'') coldScraper)
     = Inr (Some \<lparr>resultProductId = ''000132'', productName = ''000132'',
                  stores = [kamppi, koskikeskus], resultCheckedAt = 5, fromCache = True\<rparr>)"
proof -
  have h: "forceRefresh helsinkiRefresh \<and> cache coldScraper (inputProductId helsinkiRefresh) = None"
    by (simp add: helsinkiRefresh_def coldScraper_def)
  have c: "fst (getCachedAvailability coldScraper (inputProductId helsinkiRefresh))
      = Some \<lparr>resultProductId = ''000132'', productName = ''000132'',
                  stores = [kamppi, koskikeskus], resultCheckedAt = 5, fromCache = True\<rparr>"
    by (simp add: getCachedAvailability_def storedAvailability_def helsinkiRefresh_def
        coldScraper_def kamppi_def koskikeskus_def Let_def)
  from getAvailability_scrape_error_falls_back [OF prod.collapse [symmetric],
      where toLowerCase = asciiLowerCase and input = helsinkiRefresh and pname = "Some ''Viina''"
        and e = "''Timeout 30000ms exceeded''" and st = coldScraper]
  have "forceRefresh helsinkiRefresh \<and> cache coldScraper (inputProductId helsinkiRefresh) = None \<longrightarrow>
      fst (getAvailability asciiLowerCase helsinkiRefresh (Some ''Viina'') (ScrapeError ''Timeout 30000ms exceeded'') coldScraper)
        = Inr (fst (getCachedAvailability coldScraper (inputProductId helsinkiRefresh)))"
    by (elim conjE)
  with h c show ?thesis by simp
qed


lemma filterByCity_Some:
  "c \<noteq> [] \<Longrightarrow> filterByCity toLowerCase (Some c) ss = filter (nameContainsCity toLowerCase c) ss"
  by (simp add: filterByCity_def)

lemma getProductAvailability_scraped:
  "cache st pid = None \<Longrightarrow>
     \<exists>r st1. getProductAvailability st pid pname (Scraped ss) = (Inr r, st1) \<and> stores r = ss"
  by (simp add: getProductAvailability_def Let_def)

text \<open>
  C10. With a city in the request, the answer from the persisted record on the path that
  does not scrape, the answer of a successful scrape, and the answer of a forced refresh
  that the scraper serves from a live entry of its cache, hold exactly the stores whose
  name contains the city, both in lower case. The answer after a failed scrape holds all
  persisted stores of the product, whatever the city: the example returns a store in
  Tampere to a request for Helsinki. That is the only case in which a store of the answer
  can be outside the city.
\<close>

theorem getAvailability_city_filter_paths:
  assumes c: "city input = Some c" "c \<noteq> []"
  shows "(\<not> forceRefresh input \<longrightarrow>
          (\<forall>persisted st1. getCachedAvailability st (inputProductId input) = (Some persisted, st1) \<longrightarrow>
             fst (getAvailability toLowerCase input pname outcome st)
               = Inr (Some (persisted\<lparr>stores := filter (nameContainsCity toLowerCase c) (stores persisted)\<rparr>))))
     \<and> (cache st (inputProductId input) = None
          \<and> (forceRefresh input \<or> storedAvailability st (inputProductId input) = []) \<longrightarrow>
          (\<exists>r. fst (getAvailability toLowerCase input pname (Scraped ss) st) = Inr (Some r)
             \<and> stores r = filter (nameContainsCity toLowerCase c) ss))
     \<and> (forceRefresh input \<and> cache st (inputProductId input) = None
          \<and> storedAvailability st (inputProductId input) \<noteq> [] \<longrightarrow>
          (\<exists>r. fst (getAvailability toLowerCase input pname (ScrapeError e) st) = Inr (Some r)
             \<and> stores r = storedAvailability st (inputProductId input)))
     \<and> (\<forall>cached. forceRefresh input \<and> cache st (inputProductId input) = Some cached \<longrightarrow>
          fst (getAvailability toLowerCase input pname outcome st)
            = Inr (Some (cached\<lparr>fromCache := True,
                    stores := filter (nameContainsCity toLowerCase c) (stores cached)\<rparr>)))
     \<and> (\<not> (forceRefresh input \<and> cache st (inputProductId input) = None
             \<and> (\<exists>err. outcome = ScrapeError err)) \<longrightarrow>
          (\<forall>r. fst (getAvailability toLowerCase input pname outcome st) = Inr (Some r) \<longrightarrow>
             (\<forall>s \<in> set (stores r). nameContainsCity toLowerCase c s)))"
proof -
  let ?pid = "inputProductId input"
  have hit: "fst (getAvailability toLowerCase input pname outcome st)
               = Inr (Some (persisted\<lparr>stores := filter (nameContainsCity toLowerCase c) (stores persisted)\<rparr>))"
    if "\<not> forceRefresh input" and "getCachedAvailability st ?pid = (Some persisted, st1)"
    for persisted st1 outcome
    using that c by (simp add: getAvailability_def filterByCity_Some)
  have fresh: "\<exists>r. fst (scrapeFresh toLowerCase input pname (Scraped ss) st) = Inr (Some r)
             \<and> stores r = filter (nameContainsCity toLowerCase c) ss"
    if "cache st ?pid = None" for ss
  proof -
    from getProductAvailability_scraped [OF that, of pname ss] obtain r st1 where
      "getProductAvailability st ?pid pname (Scraped ss) = (Inr r, st1)" "stores r = ss"
      by blast
    with c show ?thesis by (simp add: scrapeFresh_def filterByCity_Some)
  qed
  have scrape: "\<exists>r. fst (getAvailability toLowerCase input pname (Scraped ss) st) = Inr (Some r)
             \<and> stores r = filter (nameContainsCity toLowerCase c) ss"
    if miss: "cache st ?pid = None"
      and "forceRefresh input \<or> storedAvailability st ?pid = []" for ss
  proof (cases "forceRefresh input")
    case True
    with fresh [OF miss] show ?thesis by (simp add: getAvailability_def)
  next
    case False
    with that(2) have "storedAvailability st ?pid = []" by simp
    with miss have "getCachedAvailability st ?pid = (None, st)"
      by (simp add: getCachedAvailability_def)
    with False fresh [OF miss] show ?thesis by (simp add: getAvailability_def)
  qed
  have fallback: "\<exists>r. fst (getAvailability toLowerCase input pname (ScrapeError e) st) = Inr (Some r)
             \<and> stores r = storedAvailability st ?pid"
    if "forceRefresh input" and miss: "cache st ?pid = None" and "storedAvailability st ?pid \<noteq> []"
  proof -
    from that(3) obtain d ds where "storedAvailability st ?pid = d # ds"
      by (cases "storedAvailability st ?pid") auto
    with miss have "\<exists>r. fst (getCachedAvailability st ?pid) = Some r
        \<and> stores r = storedAvailability st ?pid"
      by (simp add: getCachedAvailability_def Let_def)
    with that(1) miss show ?thesis
      by (simp add: getAvailability_def scrapeFresh_error_miss)
  qed
  have live: "fst (getAvailability toLowerCase input pname outcome st)
            = Inr (Some (cached\<lparr>fromCache := True,
                    stores := filter (nameContainsCity toLowerCase c) (stores cached)\<rparr>))"
    if "forceRefresh input" and "cache st ?pid = Some cached" for cached
    using that c scrapeFresh_hit [of st input cached toLowerCase pname outcome]
    by (simp add: getAvailability_def filterByCity_Some)
  have inside: "\<forall>s \<in> set (stores r). nameContainsCity toLowerCase c s"
    if other: "\<not> (forceRefresh input \<and> cache st ?pid = None \<and> (\<exists>err. outcome = ScrapeError err))"
      and r: "fst (getAvailability toLowerCase input pname outcome st) = Inr (Some r)" for r
  proof (cases "forceRefresh input")
    case True
    show ?thesis
    proof (cases "cache st ?pid")
      case (Some cached)
      with live [OF True Some] r show ?thesis by auto
    next
      case None
      with other True obtain ss where "outcome = Scraped ss"
        by (cases outcome) auto
      with scrape [OF None, of ss] True r show ?thesis by auto
    qed
  next
    case False
    show ?thesis
    proof (cases "getCachedAvailability st ?pid")
      case (Pair found st1)
      show ?thesis
      proof (cases found)
        case (Some persisted)
        with hit [OF False, of persisted st1 outcome] Pair r show ?thesis by auto
      next
        case None
        with Pair have st1: "st1 = st" by (simp add: getCachedAvailability_None_state)
        from None Pair have miss: "cache st ?pid = None" "storedAvailability st ?pid = []"
          using getCachedAvailability_None [of st ?pid] by simp_all
        show ?thesis
        proof (cases outcome)
          case (Scraped ss)
          with scrape [OF miss(1), of ss] miss(2) r show ?thesis by auto
        next
          case (ScrapeError err)
          with False Pair None st1 miss have
            "fst (getAvailability toLowerCase input pname outcome st) = Inr None"
            by (simp add: getAvailability_def scrapeFresh_error_miss)
          with r show ?thesis by simp
        qed
      qed
    qed
  qed
  have 1: "\<not> forceRefresh input \<longrightarrow>
          (\<forall>persisted st1. getCachedAvailability st ?pid = (Some persisted, st1) \<longrightarrow>
             fst (getAvailability toLowerCase input pname outcome st)
               = Inr (Some (persisted\<lparr>stores := filter (nameContainsCity toLowerCase c) (stores persisted)\<rparr>)))"
    using hit by blast
  have 2: "cache st ?pid = None \<and> (forceRefresh input \<or> storedAvailability st ?pid = []) \<longrightarrow>
          (\<exists>r. fst (getAvailability toLowerCase input pname (Scraped ss) st) = Inr (Some r)
             \<and> stores r = filter (nameContainsCity toLowerCase c) ss)"
    using scrape by blast
  have 3: "forceRefresh input \<and> cache st ?pid = None \<and> storedAvailability st ?pid \<noteq> [] \<longrightarrow>
          (\<exists>r. fst (getAvailability toLowerCase input pname (ScrapeError e) st) = Inr (Some r)
             \<and> stores r = storedAvailability st ?pid)"
    using fallback by blast
  have 4: "\<forall>cached. forceRefresh input \<and> cache st ?pid = Some cached \<longrightarrow>
          fst (getAvailability toLowerCase input pname outcome st)
            = Inr (Some (cached\<lparr>fromCache := True,
                    stores := filter (nameContainsCity toLowerCase c) (stores cached)\<rparr>))"
    using live by blast
  have 5: "\<not> (forceRefresh input \<and> cache st ?pid = None \<and> (\<exists>err. outcome = ScrapeError err)) \<longrightarrow>
          (\<forall>r. fst (getAvailability toLowerCase input pname outcome st) = Inr (Some r) \<longrightarrow>
             (\<forall>s \<in> set (stores r). nameContainsCity toLowerCase c s))"
    using inside by blast
  show ?thesis
    using 1 2 3 4 5 by - (intro conjI; assumption)
qed

theorem getAvailability_city_filter_witness:
  "(\<exists>r. fst (getAvailability asciiLowerCase helsinkiRefresh (Some ''Viina'')
            (ScrapeError ''Timeout 30000ms exceeded'') coldScraper) = Inr (Some r)
        \<and> stores r = [kamppi, koskikeskus])
   \<and> \<not> nameContainsCity asciiLowerCase ''Helsinki'' koskikeskus
   \<and> (\<exists>r. fst (getAvailability asciiLowerCase helsinkiRefresh (Some ''Viina'')
            (Scraped [kamppi, koskikeskus]) coldScraper) = Inr (Some r)
        \<and> stores r = [kamppi])
   \<and> fst (getAvailability asciiLowerCase helsinkiRefresh (Some ''Viina'')
            (ScrapeError ''Timeout 30000ms exceeded'') warmScraper)
       = Inr (Some (liveEntry\<lparr>fromCache := True, stores := [kamppi]\<rparr>))"
proof -
  have c: "city helsinkiRefresh = Some ''Helsinki''" "''Helsinki'' \<noteq> []"
    by (simp_all add: helsinkiRefresh_def)
  have h: "forceRefresh helsinkiRefresh" "cache coldScraper (inputProductId helsinkiRefresh) = None"
    by (simp_all add: helsinkiRefresh_def coldScraper_def)
  have s: "storedAvailability coldScraper (inputProductId helsinkiRefresh) = [kamppi, koskikeskus]"
    by (simp add: storedAvailability_def helsinkiRefresh_def coldScraper_def kamppi_def
        koskikeskus_def)
  have w: "cache warmScraper (inputProductId helsinkiRefresh) = Some liveEntry"
    by (simp add: helsinkiRefresh_def warmScraper_def)
  have l: "stores liveEntry = [kamppi, koskikeskus]"
    by (simp add: liveEntry_def)
  have n1: "nameContainsCity asciiLowerCase ''Helsinki'' kamppi" by code_simp
  have n2: "\<not> nameContainsCity asciiLowerCase ''Helsinki'' koskikeskus" by code_simp
  note t = getAvailability_city_filter_paths [OF c, where toLowerCase = asciiLowerCase
      and pname = "Some ''Viina''" and ss = "[kamppi, koskikeskus]"
      and e = "''Timeout 30000ms exceeded''"
      and outcome = "ScrapeError ''Timeout 30000ms exceeded''"]
  have t3: "forceRefresh helsinkiRefresh \<and> cache coldScraper (inputProductId helsinkiRefresh) = None
          \<and> storedAvailability coldScraper (inputProductId helsinkiRefresh) \<noteq> [] \<longrightarrow>
          (\<exists>r. fst (getAvailability asciiLowerCase helsinkiRefresh (Some ''Viina'')
                  (ScrapeError ''Timeout 30000ms exceeded'') coldScraper) = Inr (Some r)
             \<and> stores r = storedAvailability coldScraper (inputProductId helsinkiRefresh))"
    using t [where st = coldScraper] by - (elim conjE, assumption)
  have t2: "cache coldScraper (inputProductId helsinkiRefresh) = None
          \<and> (forceRefresh helsinkiRefresh
              \<or> storedAvailability coldScraper (inputProductId helsinkiRefresh) = []) \<longrightarrow>
          (\<exists>r. fst (getAvailability asciiLowerCase helsinkiRefresh (Some ''Viina'')
                  (Scraped [kamppi, koskikeskus]) coldScraper) = Inr (Some r)
             \<and> stores r = filter (nameContainsCity asciiLowerCase ''Helsinki'') [kamppi, koskikeskus])"
    using t [where st = coldScraper] by - (elim conjE, assumption)
  have t4: "\<forall>cached. forceRefresh helsinkiRefresh
            \<and> cache warmScraper (inputProductId helsinkiRefresh) = Some cached \<longrightarrow>
          fst (getAvailability asciiLowerCase helsinkiRefresh (Some ''Viina'')
                (ScrapeError ''Timeout 30000ms exceeded'') warmScraper)
            = Inr (Some (cached\<lparr>fromCache := True,
                    stores := filter (nameContainsCity asciiLowerCase ''Helsinki'') (stores cached)\<rparr>))"
    using t [where st = warmScraper] by - (elim conjE, assumption)
  have f: "filter (nameContainsCity asciiLowerCase ''Helsinki'') [kamppi, koskikeskus] = [kamppi]"
    using n1 n2 by simp
  from t3 h have a: "\<exists>r. fst (getAvailability asciiLowerCase helsinkiRefresh (Some ''Viina'')
        (ScrapeError ''Timeout 30000ms exceeded'') coldScraper) = Inr (Some r)
        \<and> stores r = [kamppi, koskikeskus]"
    unfolding s by simp
  from t2 h have b: "\<exists>r. fst (getAvailability asciiLowerCase helsinkiRefresh (Some ''Viina'')
        (Scraped [kamppi, koskikeskus]) coldScraper) = Inr (Some r) \<and> stores r = [kamppi]"
    unfolding f by simp
  from t4 h(1) w have "fst (getAvailability asciiLowerCase helsinkiRefresh (Some ''Viina'')
            (ScrapeError ''Timeout 30000ms exceeded'') warmScraper)
       = Inr (Some (liveEntry\<lparr>fromCache := True,
                stores := filter (nameContainsCity asciiLowerCase ''Helsinki'') (stores liveEntry)\<rparr>))"
    by blast
  then have d: "fst (getAvailability asciiLowerCase helsinkiRefresh (Some ''Viina'')
            (ScrapeError ''Timeout 30000ms exceeded'') warmScraper)
       = Inr (Some (liveEntry\<lparr>fromCache := True, stores := [kamppi]\<rparr>))"
    unfolding l f .
  from a n2 b d show ?thesis by - (intro conjI; assumption)
qed

section \<open>Download of the price list\<close>

text \<open>
  C8, as amended. The download succeeds exactly when both requests are answered, the
  answer for the price list is OK and its content type, taken as empty when the header is
  missing, does not contain \<^verbatim>\<open>text/html\<close>; then the body is returned. An OK answer
  whose content type contains \<^verbatim>\<open>text/html\<close> fails as blocked.
\<close>

theorem downloadPriceList_succeeds_unless_html:
  "(downloadPriceList homeFetch excelFetch = Inr b \<longleftrightarrow>
      (\<exists>homeResponse excelResponse.
          homeFetch = Inr homeResponse
          \<and> excelFetch (orEmpty (setCookieHeader homeResponse)) = Inr excelResponse
          \<and> ok excelResponse
          \<and> \<not> includesStr (orEmpty (contentTypeHeader excelResponse)) ''text/html''
          \<and> b = body excelResponse))
   \<and> (\<forall>homeResponse excelResponse.
          homeFetch = Inr homeResponse
          \<and> excelFetch (orEmpty (setCookieHeader homeResponse)) = Inr excelResponse
          \<and> ok excelResponse
          \<and> includesStr (orEmpty (contentTypeHeader excelResponse)) ''text/html''
          \<longrightarrow> downloadPriceList homeFetch excelFetch = Inl ReceivedHtml)"
proof -
  have a: "downloadPriceList homeFetch excelFetch = Inr b \<longleftrightarrow>
      (\<exists>homeResponse excelResponse.
          homeFetch = Inr homeResponse
          \<and> excelFetch (orEmpty (setCookieHeader homeResponse)) = Inr excelResponse
          \<and> ok excelResponse
          \<and> \<not> includesStr (orEmpty (contentTypeHeader excelResponse)) ''text/html''
          \<and> b = body excelResponse)"
    by (auto simp: downloadPriceList_def Let_def split: sum.splits if_splits)
  have b: "downloadPriceList homeFetch excelFetch = Inl ReceivedHtml"
    if "homeFetch = Inr homeResponse"
      and "excelFetch (orEmpty (setCookieHeader homeResponse)) = Inr excelResponse"
      and "ok excelResponse"
      and "includesStr (orEmpty (contentTypeHeader excelResponse)) ''text/html''"
    for homeResponse excelResponse
    using that by (simp add: downloadPriceList_def Let_def)
  from a b show ?thesis by blast
qed

theorem downloadPriceList_witness:
  "downloadPriceList (Inr homePage) (answering priceListXlsx) = Inr (body priceListXlsx)
   \<and> downloadPriceList (Inr homePage) (answering homePage) = Inl ReceivedHtml"
proof -
  have x: "answering priceListXlsx (orEmpty (setCookieHeader homePage)) = Inr priceListXlsx"
    "ok priceListXlsx"
    "\<not> includesStr (orEmpty (contentTypeHeader priceListXlsx)) ''text/html''"
    by (simp_all add: answering_def priceListXlsx_def)
  have h: "answering homePage (orEmpty (setCookieHeader homePage)) = Inr homePage"
    "ok homePage"
    "includesStr (orEmpty (contentTypeHeader homePage)) ''text/html''"
    by (simp_all add: answering_def homePage_def)
  note t = downloadPriceList_succeeds_unless_html [of "Inr homePage"]
  from t [of "answering priceListXlsx" "body priceListXlsx"] x
  have 1: "downloadPriceList (Inr homePage) (answering priceListXlsx) = Inr (body priceListXlsx)"
    by blast
  from t [of "answering homePage" "[]"] h
  have 2: "downloadPriceList (Inr homePage) (answering homePage) = Inl ReceivedHtml"
    by blast
  from 1 2 show ?thesis by simp
qed

text \<open>
  C8, as claimed, fails: an OK answer of type \<^verbatim>\<open>application/json\<close> is not a
  spreadsheet, and its body is returned as the price list.
\<close>

theorem downloadPriceList_json_block_page_counterexample:
  "\<not> isSpreadsheetType (orEmpty (contentTypeHeader blockedAsJson))
   \<and> downloadPriceList (Inr homePage) (answering blockedAsJson) = Inr (body blockedAsJson)"
  by (simp add: isSpreadsheetType_def spreadsheetTypes_def blockedAsJson_def homePage_def
      answering_def downloadPriceList_def)

section \<open>Enrichment\<close>

lemma smokey_le_icons:
  "length (filter isSmokeyIcon cs) \<le> length (filter isSmokinessIcon cs)"
proof -
  have "filter isSmokeyIcon cs = filter isSmokeyIcon (filter isSmokinessIcon cs)"
    by (auto simp: isSmokeyIcon_def isSmokinessIcon_def intro: filter_cong)
  then show ?thesis by (metis length_filter_le)
qed

lemma withEnrichedFields_smokiness: "smokiness (withEnrichedFields e p) = enrichedSmokiness e"
  by (simp add: withEnrichedFields_def)

lemma getProduct_enriches:
  assumes "productDocs (firestore st) (getProductId input) = Some p"
    and "includeEnrichedData input" and "\<not> hasEnrichedData p"
  shows "getProduct input (PageLoaded pg) st
     = (Some (withEnrichedFields (extractEnrichedData pg) p),
        st\<lparr>firestore := updateProduct (getProductId input) (extractEnrichedData pg) (firestore st),
           productCache := (productCache st)(getProductId input \<mapsto>
              withEnrichedFields (extractEnrichedData pg) p)\<rparr>)"
  using assms by (simp add: getProduct_def Let_def)

text \<open>
  C9, as amended. The enrichment scrape sets the smokiness to the number of elements of the
  smokiness widget that carry both classes of an active icon, and to nothing when the page
  has no widget. That number is at most the number of icon elements of the widget, so it
  lies between 0 and 4 whenever the widget has at most four icons; nothing bounds it
  otherwise. When the product tool enriches an item, it returns and persists exactly the
  scraped value.
\<close>

theorem scraped_smokiness_counts_active_icons:
  "(\<forall>w. smokinessContainer pg = Some w \<longrightarrow>
       enrichedSmokiness (extractEnrichedData pg)
         = Some (length (filter isSmokeyIcon (elementClasses w)))
       \<and> length (filter isSmokeyIcon (elementClasses w))
           \<le> length (filter isSmokinessIcon (elementClasses w))
       \<and> (length (filter isSmokinessIcon (elementClasses w)) \<le> 4 \<longrightarrow>
            (\<exists>n \<le> 4. enrichedSmokiness (extractEnrichedData pg) = Some n)))
   \<and> (smokinessContainer pg = None \<longrightarrow> enrichedSmokiness (extractEnrichedData pg) = None)
   \<and> (\<forall>p. productDocs (firestore st) (getProductId input) = Some p
          \<and> includeEnrichedData input \<and> \<not> hasEnrichedData p \<longrightarrow>
        map_option smokiness (fst (getProduct input (PageLoaded pg) st))
          = Some (enrichedSmokiness (extractEnrichedData pg))
        \<and> map_option smokiness
            (productDocs (firestore (snd (getProduct input (PageLoaded pg) st))) (getProductId input))
          = Some (enrichedSmokiness (extractEnrichedData pg)))"
proof -
  have a: "enrichedSmokiness (extractEnrichedData pg)
         = Some (length (filter isSmokeyIcon (elementClasses w)))
       \<and> length (filter isSmokeyIcon (elementClasses w))
           \<le> length (filter isSmokinessIcon (elementClasses w))
       \<and> (length (filter isSmokinessIcon (elementClasses w)) \<le> 4 \<longrightarrow>
            (\<exists>n \<le> 4. enrichedSmokiness (extractEnrichedData pg) = Some n))"
    if "smokinessContainer pg = Some w" for w
    using that smokey_le_icons [of "elementClasses w"]
    by (auto simp: extractEnrichedData_def)
  have b: "smokinessContainer pg = None \<longrightarrow> enrichedSmokiness (extractEnrichedData pg) = None"
    by (simp add: extractEnrichedData_def)
  have c: "map_option smokiness (fst (getProduct input (PageLoaded pg) st))
          = Some (enrichedSmokiness (extractEnrichedData pg))
        \<and> map_option smokiness
            (productDocs (firestore (snd (getProduct input (PageLoaded pg) st))) (getProductId input))
          = Some (enrichedSmokiness (extractEnrichedData pg))"
    if "productDocs (firestore st) (getProductId input) = Some p
          \<and> includeEnrichedData input \<and> \<not> hasEnrichedData p" for p
    using that
    by (simp add: getProduct_enriches [of st input p pg] updateProduct_def
        withEnrichedFields_smokiness)
  from a b c show ?thesis by blast
qed

theorem scraped_smokiness_witness:
  "enrichedSmokiness (extractEnrichedData threeOfFourIcons) = Some 3
   \<and> map_option smokiness
        (productDocs (firestore (snd (getProduct enrichIslayMalt (PageLoaded threeOfFourIcons) whiskyShelf)))
           (getProductId enrichIslayMalt))
      = Some (Some 3)"
proof -
  let ?w = "\<lparr>labelText = Some ''savuinen'',
              elementClasses =
                [[''smokiness-label''], [''smokiness-icons''],
                 [''smokiness-icon'', ''smokey''], [''smokiness-icon'', ''smokey''],
                 [''smokiness-icon'', ''smokey''], [''smokiness-icon'']]\<rparr>"
  have w: "smokinessContainer threeOfFourIcons = Some ?w"
    by (simp add: threeOfFourIcons_def)
  have n: "length (filter isSmokeyIcon (elementClasses ?w)) = 3"
    by (simp add: isSmokeyIcon_def)
  have h: "productDocs (firestore whiskyShelf) (getProductId enrichIslayMalt) = Some islayMalt
      \<and> includeEnrichedData enrichIslayMalt \<and> \<not> hasEnrichedData islayMalt"
    by (simp add: whiskyShelf_def enrichIslayMalt_def hasEnrichedData_def islayMalt_def viina_def)
  note t = scraped_smokiness_counts_active_icons [of threeOfFourIcons whiskyShelf enrichIslayMalt]
  from t w n have 1: "enrichedSmokiness (extractEnrichedData threeOfFourIcons) = Some 3"
    by simp
  from t h have "map_option smokiness
        (productDocs (firestore (snd (getProduct enrichIslayMalt (PageLoaded threeOfFourIcons) whiskyShelf)))
           (getProductId enrichIslayMalt))
      = Some (enrichedSmokiness (extractEnrichedData threeOfFourIcons))"
    by blast
  with 1 show ?thesis by simp
qed

text \<open>
  C9, as claimed, fails: on a page whose widget shows five active icons the scrape yields
  5, and the product tool persists 5.
\<close>

theorem scraped_smokiness_five_counterexample:
  "enrichedSmokiness (extractEnrichedData fiveSmokeyIcons) = Some 5
   \<and> map_option smokiness
        (productDocs (firestore (snd (getProduct enrichIslayMalt (PageLoaded fiveSmokeyIcons) whiskyShelf)))
           ''106320'')
      = Some (Some 5)
   \<and> \<not> (5::nat) \<le> 4"
  by (simp add: extractEnrichedData_def fiveSmokeyIcons_def isSmokeyIcon_def getProduct_def
      enrichIslayMalt_def whiskyShelf_def hasEnrichedData_def islayMalt_def viina_def
      updateProduct_def withEnrichedFields_def Let_def)

section \<open>Store hours\<close>

lemma in_slice: "x \<in> set (slice a b xs) \<Longrightarrow> x \<in> set xs"
  by (auto simp: slice_def dest: in_set_takeD in_set_dropD)

lemma set_listStores: "x \<in> set (listStores toLowerCase lc c lmt coll) \<Longrightarrow> x \<in> set coll"
  by (auto simp: listStores_def Let_def set_arraySort split: if_splits dest!: in_slice)

lemma set_getStore: "getStore coll sid = Some s \<Longrightarrow> s \<in> set coll"
  by (auto simp: getStore_def find_Some_iff)

lemma set_selectStores: "x \<in> set (selectStores toLowerCase lc input coll) \<Longrightarrow> x \<in> set coll"
  by (auto simp: selectStores_def Let_def split: option.splits if_splits
      dest: set_getStore set_listStores)

lemma set_storesAfterRefresh:
  "set (fst (storesAfterRefresh toLowerCase lc input coll refresh today))
     \<subseteq> set coll \<union> (case refresh of RefreshReturned coll' \<Rightarrow> set coll' | RefreshThrew e \<Rightarrow> {})"
  by (cases refresh)
     (auto simp: storesAfterRefresh_def Let_def split: if_splits dest: set_selectStores)

lemma answer_from_stores:
  assumes "r \<in> set (answerStores (getStoreHours toLowerCase lc input coll refresh today))"
  shows "\<exists>s \<in> set (fst (storesAfterRefresh toLowerCase lc input coll refresh today)). r = toStoreHours today s"
proof -
  obtain found wasRefreshed err where
    t: "storesAfterRefresh toLowerCase lc input coll refresh today = (found, wasRefreshed, err)"
    by (cases "storesAfterRefresh toLowerCase lc input coll refresh today") auto
  let ?results = "map (toStoreHours today) found"
  let ?results' = "if openNow input = Some True then filter isOpenNow ?results else ?results"
  from assms t have "r \<in> set (slice 0 (hoursLimit input) ?results')"
    by (simp add: getStoreHours_def Let_def)
  then have "r \<in> set ?results'" by (rule in_slice)
  then have "r \<in> set ?results" by (auto split: if_splits)
  with t show ?thesis by auto
qed

text \<open>
  C7. Every entry of the answer of the store-hours tool is made from one of the stores
  that the tool holds after its attempt to refresh, and these are stores of the collection
  before or after the refresh. For a store whose update timestamp is missing or falls on
  another calendar day than today, the entry says that the store is not open now and gives
  no opening hours for today and none for tomorrow. For a store updated today the entry
  gives the stored hours, and whether it is open now is read from today's hours.
\<close>

theorem getStoreHours_stale_hours_unknown:
  "(\<forall>r \<in> set (answerStores (getStoreHours toLowerCase lc input coll refresh today)).
       \<exists>s \<in> set (fst (storesAfterRefresh toLowerCase lc input coll refresh today)). r = toStoreHours today s)
   \<and> set (fst (storesAfterRefresh toLowerCase lc input coll refresh today))
       \<subseteq> set coll \<union> (case refresh of RefreshReturned coll' \<Rightarrow> set coll' | RefreshThrew e \<Rightarrow> {})
   \<and> (\<forall>s. outletUpdatedAt s = None
          \<or> (\<exists>d. outletUpdatedAt s = Some d
                \<and> (getFullYear d \<noteq> getFullYear today \<or> getMonth d \<noteq> getMonth today
                    \<or> getDate d \<noteq> getDate today))
        \<longrightarrow> \<not> isOpenNow (toStoreHours today s)
            \<and> entryOpeningHoursToday (toStoreHours today s) = None
            \<and> entryOpeningHoursTomorrow (toStoreHours today s) = None)
   \<and> (\<forall>s d. outletUpdatedAt s = Some d
          \<and> getFullYear d = getFullYear today \<and> getMonth d = getMonth today
          \<and> getDate d = getDate today
        \<longrightarrow> isOpenNow (toStoreHours today s) = isStoreOpenNow (openingHoursToday s) (getHours today)
            \<and> entryOpeningHoursToday (toStoreHours today s) = openingHoursToday s
            \<and> entryOpeningHoursTomorrow (toStoreHours today s) = openingHoursTomorrow s)"
proof -
  have a: "\<forall>r \<in> set (answerStores (getStoreHours toLowerCase lc input coll refresh today)).
       \<exists>s \<in> set (fst (storesAfterRefresh toLowerCase lc input coll refresh today)). r = toStoreHours today s"
    using answer_from_stores by blast
  note b = set_storesAfterRefresh [of toLowerCase lc input coll refresh today]
  have c: "\<forall>s. outletUpdatedAt s = None
          \<or> (\<exists>d. outletUpdatedAt s = Some d
                \<and> (getFullYear d \<noteq> getFullYear today \<or> getMonth d \<noteq> getMonth today
                    \<or> getDate d \<noteq> getDate today))
        \<longrightarrow> \<not> isOpenNow (toStoreHours today s)
            \<and> entryOpeningHoursToday (toStoreHours today s) = None
            \<and> entryOpeningHoursTomorrow (toStoreHours today s) = None"
    by (auto simp: toStoreHours_def isStoreDataStale_def Let_def)
  have d: "\<forall>s d. outletUpdatedAt s = Some d
          \<and> getFullYear d = getFullYear today \<and> getMonth d = getMonth today
          \<and> getDate d = getDate today
        \<longrightarrow> isOpenNow (toStoreHours today s) = isStoreOpenNow (openingHoursToday s) (getHours today)
            \<and> entryOpeningHoursToday (toStoreHours today s) = openingHoursToday s
            \<and> entryOpeningHoursTomorrow (toStoreHours today s) = openingHoursTomorrow s"
    by (auto simp: toStoreHours_def isStoreDataStale_def Let_def)
  show ?thesis
    using a b c d by - (intro conjI; assumption)
qed

theorem getStoreHours_stale_witness:
  "answerStores (getStoreHours asciiLowerCase compareChars arkadiaHours [arkadia] (RefreshReturned [arkadia]) noonNextDay)
     = [toStoreHours noonNextDay arkadia]
   \<and> \<not> isOpenNow (toStoreHours noonNextDay arkadia)
   \<and> entryOpeningHoursToday (toStoreHours noonNextDay arkadia) = None
   \<and> entryOpeningHoursTomorrow (toStoreHours noonNextDay arkadia) = None
   \<and> isStoreOpenNow (openingHoursToday arkadia) (getHours noonNextDay)"
proof -
  have h: "\<exists>d. outletUpdatedAt arkadia = Some d
                \<and> (getFullYear d \<noteq> getFullYear noonNextDay \<or> getMonth d \<noteq> getMonth noonNextDay
                    \<or> getDate d \<noteq> getDate noonNextDay)"
    by (simp add: arkadia_def noonNextDay_def)
  have sel: "selectStores asciiLowerCase compareChars arkadiaHours [arkadia] = [arkadia]"
    by (simp add: selectStores_def arkadiaHours_def getStore_def arkadia_def)
  have stale: "isStoreDataStale arkadia noonNextDay"
    by (simp add: isStoreDataStale_def arkadia_def noonNextDay_def)
  have e: "answerStores (getStoreHours asciiLowerCase compareChars arkadiaHours [arkadia] (RefreshReturned [arkadia])
        noonNextDay) = [toStoreHours noonNextDay arkadia]"
    by (simp add: getStoreHours_def storesAfterRefresh_def sel stale Let_def slice_def)
      (simp add: arkadiaHours_def)
  have o: "isStoreOpenNow (openingHoursToday arkadia) (getHours noonNextDay)"
    by code_simp
  from getStoreHours_stale_hours_unknown [where toLowerCase = asciiLowerCase
      and lc = compareChars and input = arkadiaHours and coll = "[arkadia]"
      and refresh = "RefreshReturned [arkadia]" and today = noonNextDay] h
  have "\<not> isOpenNow (toStoreHours noonNextDay arkadia)
            \<and> entryOpeningHoursToday (toStoreHours noonNextDay arkadia) = None
            \<and> entryOpeningHoursTomorrow (toStoreHours noonNextDay arkadia) = None"
    by blast
  with e o show ?thesis by simp
qed

end
